theory Spec2Isabelle
  imports Complex_Main "HOL-Library.Monad_Syntax"
begin

section \<open>Python values and containers\<close>

text \<open>
  Python integers are unbounded, so every index, score and counter is an \<open>int\<close>.
  A computation that can raise returns an \<open>option\<close>: \<open>None\<close> stands for the
  exception (\<open>IndexError\<close> from an index out of range or a pop of an empty list,
  \<open>ValueError\<close> from the maximum of an empty list).  The percentage metrics catch one
  kind of exception and let another through, so they return a sum whose left side
  names the exception.
\<close>

datatype py_error = IndexError | ZeroDivisionError | AssertionError

text \<open>Indexing a Python list: a negative index counts from the end, and an index
  outside \<open>-len .. len-1\<close> raises.\<close>

definition py_nth :: "'a list \<Rightarrow> int \<Rightarrow> 'a option" where
  "py_nth xs i =
     (let n = int (length xs); k = (if i < 0 then i + n else i)
      in if 0 \<le> k \<and> k < n then Some (xs ! nat k) else None)"

text \<open>The item assignment \<open>xs[i] = v\<close>, with the same index rule.\<close>

definition py_set :: "'a list \<Rightarrow> int \<Rightarrow> 'a \<Rightarrow> 'a list option" where
  "py_set xs i v =
     (let n = int (length xs); k = (if i < 0 then i + n else i)
      in if 0 \<le> k \<and> k < n then Some (xs[nat k := v]) else None)"

text \<open>\<open>list.pop()\<close>: the last element and the shortened list.\<close>

definition list_pop :: "'a list \<Rightarrow> ('a \<times> 'a list) option" where
  "list_pop xs = (if xs = [] then None else Some (last xs, butlast xs))"

text \<open>\<open>max(xs)\<close> of a list; the maximum of an empty list raises.\<close>

definition py_max :: "int list \<Rightarrow> int option" where
  "py_max xs = (case xs of [] \<Rightarrow> None | x # rest \<Rightarrow> Some (fold max rest x))"

text \<open>\<open>for x in xs: body\<close> over a state, where the body can raise: the first
  exception ends the loop.\<close>

fun for_loop :: "'a list \<Rightarrow> ('a \<Rightarrow> 's \<Rightarrow> 's option) \<Rightarrow> 's \<Rightarrow> 's option" where
  "for_loop [] body st = Some st"
| "for_loop (x # xs) body st = (case body x st of None \<Rightarrow> None | Some st' \<Rightarrow> for_loop xs body st')"

text \<open>\<open>range(a, b)\<close> for a lower bound that is not negative.\<close>

definition py_range :: "nat \<Rightarrow> nat \<Rightarrow> int list" where
  "py_range a b = map int [a..<b]"

section \<open>Encoded sequences\<close>

text \<open>
  Modelled from the spec: the encoded-sequence container and the gap sentinel of the
  module \<open>sequence\<close>, which the aligner imports.  The spec describes an ordered,
  0-indexed list of symbol codes with length, indexed read, append-at-end, remove-last
  and a reversed copy, and a gap sentinel that is a fixed negative constant (for
  example -1).  The sequence's opaque identifier plays no part in any computation of
  the aligner and is left out.
\<close>

type_synonym EncodedSequence = "int list"

definition GAP_CODE :: int where
  "GAP_CODE = -1"

definition seq_push :: "EncodedSequence \<Rightarrow> int \<Rightarrow> EncodedSequence" where
  "seq_push xs e = xs @ [e]"

definition seq_pop :: "EncodedSequence \<Rightarrow> (int \<times> EncodedSequence) option" where
  "seq_pop xs = list_pop xs"

definition seq_reversed :: "EncodedSequence \<Rightarrow> EncodedSequence" where
  "seq_reversed xs = rev xs"

section \<open>Scoring\<close>

text \<open>
  A scoring object answers three calls: the substitution score of two elements
  (\<open>__call__\<close>), and the costs of opening and of extending a gap beside an element.
\<close>

record Scoring =
  call :: "int \<Rightarrow> int \<Rightarrow> int"
  gapStart :: "int \<Rightarrow> int"
  gapExtension :: "int \<Rightarrow> int"

definition SimpleScoring :: "int \<Rightarrow> int \<Rightarrow> int \<Rightarrow> int \<Rightarrow> Scoring" where
  "SimpleScoring matchScore mismatchScore gapStartScore gapExtensionScore =
     \<lparr> call = (\<lambda>firstElement secondElement.
                if firstElement = secondElement then matchScore else mismatchScore),
       gapStart = (\<lambda>element. gapStartScore),
       gapExtension = (\<lambda>element. gapExtensionScore) \<rparr>"

section \<open>The alignment accumulator\<close>

record SequenceAlignment =
  first :: EncodedSequence
  second :: EncodedSequence
  gap :: int
  scores :: "int list"
  score :: int
  identicalCount :: int
  similarCount :: int
  gapCount :: int
  preservedCount :: int

text \<open>The constructor: with no \<open>other\<close> the statistics start at zero and there is
  one zero score per element already in \<open>first\<close>; with \<open>other\<close> they are copied.\<close>

definition SequenceAlignment_init ::
  "EncodedSequence \<Rightarrow> EncodedSequence \<Rightarrow> int \<Rightarrow> SequenceAlignment option \<Rightarrow> SequenceAlignment" where
  "SequenceAlignment_init fs sn g other =
     (case other of
        None \<Rightarrow>
          \<lparr> first = fs, second = sn, gap = g,
            scores = replicate (length fs) 0, score = 0,
            identicalCount = 0, similarCount = 0, gapCount = 0, preservedCount = 0 \<rparr>
      | Some o' \<Rightarrow>
          \<lparr> first = fs, second = sn, gap = g,
            scores = scores o', score = score o',
            identicalCount = identicalCount o', similarCount = similarCount o',
            gapCount = gapCount o', preservedCount = preservedCount o' \<rparr>)"

definition push :: "SequenceAlignment \<Rightarrow> int \<Rightarrow> int \<Rightarrow> int \<Rightarrow> SequenceAlignment" where
  "push al firstElement secondElement s =
     (let al = al\<lparr> first := seq_push (first al) firstElement \<rparr>;
          al = al\<lparr> second := seq_push (second al) secondElement \<rparr>;
          al = al\<lparr> scores := scores al @ [s] \<rparr>;
          al = al\<lparr> score := score al + s \<rparr>;
          al = (if firstElement = secondElement
                then al\<lparr> identicalCount := identicalCount al + 1 \<rparr> else al);
          al = (if s > 0 then al\<lparr> similarCount := similarCount al + 1 \<rparr> else al)
      in if firstElement = gap al \<or> secondElement = gap al
         then al\<lparr> gapCount := gapCount al + 1 \<rparr>
         else al\<lparr> preservedCount := preservedCount al + 1 \<rparr>)"

definition pop :: "SequenceAlignment \<Rightarrow> ((int \<times> int) \<times> SequenceAlignment) option" where
  "pop al = do {
     (firstElement, fs) \<leftarrow> seq_pop (first al);
     (secondElement, sn) \<leftarrow> seq_pop (second al);
     (s, ss) \<leftarrow> list_pop (scores al);
     let al = al\<lparr> first := fs, second := sn, scores := ss, score := score al - s \<rparr>;
     let al = (if firstElement = secondElement
               then al\<lparr> identicalCount := identicalCount al - 1 \<rparr> else al);
     let al = (if s > 0 then al\<lparr> similarCount := similarCount al - 1 \<rparr> else al);
     let al = (if firstElement = gap al \<or> secondElement = gap al
               then al\<lparr> gapCount := gapCount al - 1 \<rparr>
               else al\<lparr> preservedCount := preservedCount al - 1 \<rparr>);
     Some ((firstElement, secondElement), al)
   }"

text \<open>\<open>reversed\<close> reverses the two sequences and copies the statistics (the score
  list is copied as it is).\<close>

definition reversed :: "SequenceAlignment \<Rightarrow> SequenceAlignment" where
  "reversed al =
     SequenceAlignment_init (seq_reversed (first al)) (seq_reversed (second al)) (gap al) (Some al)"

text \<open>\<open>__len__\<close> asserts that the two sequences have one length.\<close>

definition len_alignment :: "SequenceAlignment \<Rightarrow> py_error + int" where
  "len_alignment al =
     (if length (first al) = length (second al)
      then Inr (int (length (first al))) else Inl AssertionError)"

text \<open>
  The metrics compute \<open>float(count) / denominator * 100.0\<close> inside
  \<open>try ... except ZeroDivisionError: return 0.0\<close>.  A float is modelled by a real
  number; the value 0.0 that the handler returns is exact.
\<close>

definition py_truediv :: "real \<Rightarrow> int \<Rightarrow> py_error + real" where
  "py_truediv x d = (if d = 0 then Inl ZeroDivisionError else Inr (x / real_of_int d))"

definition except_ZeroDivisionError :: "py_error + real \<Rightarrow> py_error + real" where
  "except_ZeroDivisionError r = (case r of Inl ZeroDivisionError \<Rightarrow> Inr 0 | _ \<Rightarrow> r)"

definition percentIdentity :: "SequenceAlignment \<Rightarrow> py_error + real" where
  "percentIdentity al =
     except_ZeroDivisionError
       (case len_alignment al of
          Inl e \<Rightarrow> Inl e
        | Inr n \<Rightarrow> (case py_truediv (real_of_int (identicalCount al)) n of
                     Inl e \<Rightarrow> Inl e | Inr q \<Rightarrow> Inr (q * 100)))"

definition percentPreservedIdentity :: "SequenceAlignment \<Rightarrow> py_error + real" where
  "percentPreservedIdentity al =
     except_ZeroDivisionError
       (case py_truediv (real_of_int (identicalCount al)) (preservedCount al) of
          Inl e \<Rightarrow> Inl e | Inr q \<Rightarrow> Inr (q * 100))"

definition percentSimilarity :: "SequenceAlignment \<Rightarrow> py_error + real" where
  "percentSimilarity al =
     except_ZeroDivisionError
       (case len_alignment al of
          Inl e \<Rightarrow> Inl e
        | Inr n \<Rightarrow> (case py_truediv (real_of_int (similarCount al)) n of
                     Inl e \<Rightarrow> Inl e | Inr q \<Rightarrow> Inr (q * 100)))"

definition percentPreservedSimilarity :: "SequenceAlignment \<Rightarrow> py_error + real" where
  "percentPreservedSimilarity al =
     except_ZeroDivisionError
       (case py_truediv (real_of_int (similarCount al)) (preservedCount al) of
          Inl e \<Rightarrow> Inl e | Inr q \<Rightarrow> Inr (q * 100))"

definition percentGap :: "SequenceAlignment \<Rightarrow> py_error + real" where
  "percentGap al =
     except_ZeroDivisionError
       (case len_alignment al of
          Inl e \<Rightarrow> Inl e
        | Inr n \<Rightarrow> (case py_truediv (real_of_int (gapCount al)) n of
                     Inl e \<Rightarrow> Inl e | Inr q \<Rightarrow> Inr (q * 100)))"

datatype MatrixType = F | IX | IY

definition MatrixType_all :: "MatrixType list" where
  "MatrixType_all = [F, IX, IY]"

record AlignmentMatrix =
  shape :: "int \<times> int"
  matrix :: "MatrixType \<Rightarrow> int list list"
  direction :: "MatrixType \<Rightarrow> MatrixType list list list"

definition make_matrix :: "int \<times> int \<Rightarrow> 'a \<Rightarrow> 'a list list" where
  "make_matrix shp v = (case shp of (i, j) \<Rightarrow> replicate (nat i) (replicate (nat j) v))"

definition AlignmentMatrix_init :: "int \<times> int \<Rightarrow> AlignmentMatrix" where
  "AlignmentMatrix_init shp =
     \<lparr> shape = shp, matrix = (\<lambda>t. make_matrix shp 0), direction = (\<lambda>t. make_matrix shp []) \<rparr>"

definition getScore :: "AlignmentMatrix \<Rightarrow> MatrixType \<Rightarrow> int \<Rightarrow> int \<Rightarrow> int option" where
  "getScore f t i j = do { row \<leftarrow> py_nth (matrix f t) i; py_nth row j }"

definition setScore :: "AlignmentMatrix \<Rightarrow> MatrixType \<Rightarrow> int \<Rightarrow> int \<Rightarrow> int \<Rightarrow> AlignmentMatrix option" where
  "setScore f t i j s = do {
     row \<leftarrow> py_nth (matrix f t) i;
     row' \<leftarrow> py_set row j s;
     rows' \<leftarrow> py_set (matrix f t) i row';
     Some (f\<lparr> matrix := (matrix f)(t := rows') \<rparr>)
   }"

definition getDirection :: "AlignmentMatrix \<Rightarrow> MatrixType \<Rightarrow> int \<Rightarrow> int \<Rightarrow> MatrixType list option" where
  "getDirection f t i j = do { row \<leftarrow> py_nth (direction f t) i; py_nth row j }"

definition setDirection ::
  "AlignmentMatrix \<Rightarrow> MatrixType \<Rightarrow> int \<Rightarrow> int \<Rightarrow> MatrixType list \<Rightarrow> AlignmentMatrix option" where
  "setDirection f t i j d = do {
     row \<leftarrow> py_nth (direction f t) i;
     row' \<leftarrow> py_set row j d;
     rows' \<leftarrow> py_set (direction f t) i row';
     Some (f\<lparr> direction := (direction f)(t := rows') \<rparr>)
   }"

definition AlignmentMatrix_max :: "AlignmentMatrix \<Rightarrow> int option" where
  "AlignmentMatrix_max f = do {
     ms \<leftarrow> those (map (\<lambda>t. do { rs \<leftarrow> those (map py_max (matrix f t)); py_max rs })
                     MatrixType_all);
     py_max ms
   }"

record SequenceAligner =
  scoring :: Scoring
  gapScore :: int
  gapExtensionScore :: int

record GlobalSequenceAligner = SequenceAligner +
  fastBacktrace :: bool

record LocalSequenceAligner = SequenceAligner +
  minScore :: "int option"

definition emptyAlignment :: "EncodedSequence \<Rightarrow> EncodedSequence \<Rightarrow> SequenceAlignment" where
  "emptyAlignment first_seq second_seq = SequenceAlignment_init [] [] GAP_CODE None"

definition tied :: "int \<Rightarrow> int \<Rightarrow> int \<Rightarrow> int \<Rightarrow> MatrixType list" where
  "tied prevF prevIx prevIy maxScore =
     map snd (filter (\<lambda>(s, d). s = maxScore) [(prevF, F), (prevIx, IX), (prevIy, IY)])"

definition max3 :: "int \<Rightarrow> int \<Rightarrow> int \<Rightarrow> int" where
  "max3 x y z = max (max x y) z"

definition Global_cell ::
  "GlobalSequenceAligner \<Rightarrow> EncodedSequence \<Rightarrow> EncodedSequence \<Rightarrow> int \<Rightarrow> int \<Rightarrow>
   int \<Rightarrow> int \<Rightarrow> AlignmentMatrix \<Rightarrow> AlignmentMatrix option" where
  "Global_cell self first_seq second_seq m n i j f = do {
     prevF \<leftarrow> getScore f F (i - 1) (j - 1);
     prevIx \<leftarrow> getScore f IX (i - 1) (j - 1);
     prevIy \<leftarrow> getScore f IY (i - 1) (j - 1);
     let maxScore = max3 prevF prevIx prevIy;
     let dirAb = tied prevF prevIx prevIy maxScore;
     a \<leftarrow> py_nth first_seq (i - 1);
     b \<leftarrow> py_nth second_seq (j - 1);
     f \<leftarrow> setScore f F i j (maxScore + call (scoring self) a b);
     f \<leftarrow> setDirection f F i j dirAb;
     f \<leftarrow> (if i = m - 1 then do {
            prevF \<leftarrow> getScore f F i (j - 1);
            prevIx \<leftarrow> getScore f IX i (j - 1);
            prevIy \<leftarrow> getScore f IY i (j - 1);
            let maxScore = max3 prevF prevIx prevIy;
            let dirGa = tied prevF prevIx prevIy maxScore;
            f \<leftarrow> setScore f IX i j maxScore;
            setDirection f IX i j dirGa
          } else do {
            x \<leftarrow> getScore f F i (j - 1);
            b \<leftarrow> py_nth second_seq (j - 1);
            let prevF = x + gapStart (scoring self) b;
            prevIx \<leftarrow> getScore f IX i (j - 1);
            x \<leftarrow> getScore f IY i (j - 1);
            b \<leftarrow> py_nth second_seq (j - 1);
            let prevIy = x + gapStart (scoring self) b;
            let maxScore = max3 prevF prevIx prevIy;
            let dirGa = tied prevF prevIx prevIy maxScore;
            b \<leftarrow> py_nth second_seq (j - 1);
            f \<leftarrow> setScore f IX i j (maxScore + gapExtension (scoring self) b);
            setDirection f IX i j dirGa
          });
     (if j = n - 1 then do {
            prevF \<leftarrow> getScore f F (i - 1) j;
            prevIx \<leftarrow> getScore f IX (i - 1) j;
            prevIy \<leftarrow> getScore f IY (i - 1) j;
            let maxScore = max3 prevF prevIx prevIy;
            let dirGb = tied prevF prevIx prevIy maxScore;
            f \<leftarrow> setScore f IY i j maxScore;
            setDirection f IY i j dirGb
          } else do {
            x \<leftarrow> getScore f F (i - 1) j;
            a \<leftarrow> py_nth first_seq (i - 1);
            let prevF = x + gapStart (scoring self) a;
            x \<leftarrow> getScore f IX (i - 1) j;
            a \<leftarrow> py_nth first_seq (i - 1);
            let prevIx = x + gapStart (scoring self) a;
            prevIy \<leftarrow> getScore f IY (i - 1) j;
            let maxScore = max3 prevF prevIx prevIy;
            let dirGb = tied prevF prevIx prevIy maxScore;
            a \<leftarrow> py_nth first_seq (i - 1);
            f \<leftarrow> setScore f IY i j (maxScore + gapExtension (scoring self) a);
            setDirection f IY i j dirGb
          })
   }"

definition Global_computeAlignmentMatrix ::
  "GlobalSequenceAligner \<Rightarrow> EncodedSequence \<Rightarrow> EncodedSequence \<Rightarrow> AlignmentMatrix option" where
  "Global_computeAlignmentMatrix self first_seq second_seq =
     (let m = int (length first_seq) + 1;
          n = int (length second_seq) + 1;
          f = AlignmentMatrix_init (m, n)
      in for_loop (py_range 1 (nat m))
           (\<lambda>i f. for_loop (py_range 1 (nat n))
                     (\<lambda>j f. Global_cell self first_seq second_seq m n i j f) f) f)"

definition Global_bestScore :: "AlignmentMatrix \<Rightarrow> int option" where
  "Global_bestScore f = do {
     ss \<leftarrow> those (map (\<lambda>ty. getScore f ty (-1) (-1)) MatrixType_all);
     py_max ss
   }"


lemma for_loop_cong [fundef_cong]:
  "xs = ys \<Longrightarrow> st = st' \<Longrightarrow> (\<And>x s. x \<in> set ys \<Longrightarrow> body x s = body' x s)
   \<Longrightarrow> for_loop xs body st = for_loop ys body' st'"
proof (induction ys arbitrary: xs st st')
  case Nil
  then show ?case by simp
next
  case (Cons y ys)
  then show ?case by (auto split: option.splits)
qed

declare Option.bind_cong [fundef_cong]

definition rows_bound :: "AlignmentMatrix \<Rightarrow> int" where
  "rows_bound f = (\<Sum>t\<leftarrow>MatrixType_all. int (length (matrix f t)))"

definition cols_bound :: "AlignmentMatrix \<Rightarrow> int" where
  "cols_bound f = (\<Sum>t\<leftarrow>MatrixType_all. \<Sum>r\<leftarrow>matrix f t. int (length r))"

definition cell_measure :: "AlignmentMatrix \<Rightarrow> int \<Rightarrow> int \<Rightarrow> nat" where
  "cell_measure f i j = nat (i + rows_bound f) + nat (j + cols_bound f)"

lemma py_nth_SomeD:
  "py_nth xs i = Some x \<Longrightarrow> - int (length xs) \<le> i \<and> i < int (length xs) \<and> x \<in> set xs"
  by (auto simp: py_nth_def Let_def split: if_splits)

lemma sum_lengths_nonneg: "0 \<le> (\<Sum>r\<leftarrow>rs. int (length r))"
  by (induction rs) auto

lemma length_le_sum_list: "r \<in> set rs \<Longrightarrow> int (length r) \<le> (\<Sum>r\<leftarrow>rs. int (length r))"
proof (induction rs)
  case Nil
  then show ?case by simp
next
  case (Cons a rs)
  then show ?case using sum_lengths_nonneg[of rs] by auto
qed

lemma getScore_bounds:
  assumes "getScore f t i j = Some v"
  shows "- rows_bound f \<le> i" and "- cols_bound f \<le> j"
proof -
  from assms obtain r where r: "py_nth (matrix f t) i = Some r" and v: "py_nth r j = Some v"
    by (auto simp: getScore_def bind_eq_Some_conv)
  have "int (length (matrix f t)) \<le> rows_bound f"
    by (cases t) (simp_all add: rows_bound_def MatrixType_all_def)
  with py_nth_SomeD[OF r] show "- rows_bound f \<le> i" by linarith
  have "int (length r) \<le> (\<Sum>r\<leftarrow>matrix f t. int (length r))"
    using py_nth_SomeD[OF r] by (simp add: length_le_sum_list)
  also have "\<dots> \<le> cols_bound f"
    using sum_lengths_nonneg[of "matrix f F"] sum_lengths_nonneg[of "matrix f IX"]
      sum_lengths_nonneg[of "matrix f IY"]
    by (cases t) (simp_all add: cols_bound_def MatrixType_all_def)
  finally show "- cols_bound f \<le> j" using py_nth_SomeD[OF v] by linarith
qed

lemma cell_measure_less:
  assumes "getScore f t i' j' = Some v" "i' \<le> i" "j' \<le> j" "i' < i \<or> j' < j"
  shows "cell_measure f i' j' < cell_measure f i j"
  using getScore_bounds[OF assms(1)] assms(2-) unfolding cell_measure_def by linarith

function Global_backtraceFrom ::
  "GlobalSequenceAligner \<Rightarrow> EncodedSequence \<Rightarrow> EncodedSequence \<Rightarrow> AlignmentMatrix \<Rightarrow>
   int \<Rightarrow> int \<Rightarrow> SequenceAlignment list \<Rightarrow> SequenceAlignment \<Rightarrow> MatrixType \<Rightarrow>
   (SequenceAlignment list \<times> SequenceAlignment) option" where
  "Global_backtraceFrom self first_seq second_seq f i j alignments alignment current =
     (if i = 0 \<or> j = 0 then
        (if current = F then Some (alignments @ [reversed alignment], alignment)
         else Some (alignments, alignment))
      else do {
        let (m, n) = shape f;
        allDirections \<leftarrow> getDirection f current i j;
        let directions = (if fastBacktrace self then take 1 allDirections else allDirections);
        c \<leftarrow> getScore f current i j;
        a \<leftarrow> py_nth first_seq (i - 1);
        b \<leftarrow> py_nth second_seq (j - 1);
        (case current of
           F \<Rightarrow>
             for_loop directions (\<lambda>dir (alignments, alignment). do {
               p \<leftarrow> getScore f dir (i - 1) (j - 1);
               let alignment = push alignment a b (c - p);
               (alignments, alignment) \<leftarrow>
                 Global_backtraceFrom self first_seq second_seq f (i - 1) (j - 1)
                   alignments alignment dir;
               (e, alignment) \<leftarrow> pop alignment;
               Some (alignments, alignment)
             }) (alignments, alignment)
         | IX \<Rightarrow>
             if i = m - 1 then
               for_loop directions (\<lambda>dir (alignments, alignment). do {
                 y \<leftarrow> getScore f dir i (j - 1);
                 if c = y then
                   Global_backtraceFrom self first_seq second_seq f i (j - 1)
                     alignments alignment dir
                 else Some (alignments, alignment)
               }) (alignments, alignment)
             else
               for_loop directions (\<lambda>dir (alignments, alignment). do {
                 y \<leftarrow> getScore f dir i (j - 1);
                 let alignment = push alignment (gap alignment) b (c - y);
                 (alignments, alignment) \<leftarrow>
                   Global_backtraceFrom self first_seq second_seq f i (j - 1)
                     alignments alignment dir;
                 (e, alignment) \<leftarrow> pop alignment;
                 Some (alignments, alignment)
               }) (alignments, alignment)
         | IY \<Rightarrow>
             if j = n - 1 then
               for_loop directions (\<lambda>dir (alignments, alignment). do {
                 x \<leftarrow> getScore f dir (i - 1) j;
                 if c = x then
                   Global_backtraceFrom self first_seq second_seq f (i - 1) j
                     alignments alignment dir
                 else Some (alignments, alignment)
               }) (alignments, alignment)
             else
               for_loop directions (\<lambda>dir (alignments, alignment). do {
                 x \<leftarrow> getScore f dir (i - 1) j;
                 let alignment = push alignment a (gap alignment) (c - x);
                 (alignments, alignment) \<leftarrow>
                   Global_backtraceFrom self first_seq second_seq f (i - 1) j
                     alignments alignment dir;
                 (e, alignment) \<leftarrow> pop alignment;
                 Some (alignments, alignment)
               }) (alignments, alignment))
      })"
  by pat_completeness auto
termination
  by (relation "measure (\<lambda>(self, first_seq, second_seq, f, i, j, alignments, alignment, current).
                   cell_measure f i j)")
     (auto intro: cell_measure_less)

definition Global_backtrace ::
  "GlobalSequenceAligner \<Rightarrow> EncodedSequence \<Rightarrow> EncodedSequence \<Rightarrow> AlignmentMatrix \<Rightarrow>
   SequenceAlignment list option" where
  "Global_backtrace self first_seq second_seq f = do {
     let (m, n) = shape f;
     let alignments = [];
     let alignment = emptyAlignment first_seq second_seq;
     best \<leftarrow> Global_bestScore f;
     ss \<leftarrow> those (map (\<lambda>ty. getScore f ty (-1) (-1)) MatrixType_all);
     let bestTypes = map snd (filter (\<lambda>(s, ty). s \<ge> best) (zip ss MatrixType_all));
     (alignments, alignment) \<leftarrow>
       for_loop (if fastBacktrace self then take 1 bestTypes else bestTypes)
         (\<lambda>ty (alignments, alignment).
            Global_backtraceFrom self first_seq second_seq f (m - 1) (n - 1)
              alignments alignment ty)
         (alignments, alignment);
     Some alignments
   }"

definition Global_align ::
  "GlobalSequenceAligner \<Rightarrow> EncodedSequence \<Rightarrow> EncodedSequence \<Rightarrow> bool \<Rightarrow>
   (int \<times> SequenceAlignment list option) option" where
  "Global_align self first_seq second_seq backtrace = do {
     f \<leftarrow> Global_computeAlignmentMatrix self first_seq second_seq;
     s \<leftarrow> Global_bestScore f;
     if backtrace then do {
       alignments \<leftarrow> Global_backtrace self first_seq second_seq f;
       Some (s, Some alignments)
     } else Some (s, None)
   }"


definition Strict_computeAlignmentMatrix ::
  "'a SequenceAligner_scheme \<Rightarrow> EncodedSequence \<Rightarrow> EncodedSequence \<Rightarrow> AlignmentMatrix option" where
  "Strict_computeAlignmentMatrix self first_seq second_seq = do {
     let m = int (length first_seq) + 1;
     let n = int (length second_seq) + 1;
     let f = AlignmentMatrix_init (m, n);
     f \<leftarrow> for_loop (py_range 1 (nat m)) (\<lambda>i f. do {
            x \<leftarrow> getScore f F (i - 1) 0;
            setScore f F i 0 (x + gapScore self)
          }) f;
     f \<leftarrow> for_loop (py_range 1 (nat n)) (\<lambda>j f. do {
            y \<leftarrow> getScore f F 0 (j - 1);
            setScore f F 0 j (y + gapScore self)
          }) f;
     for_loop (py_range 1 (nat m)) (\<lambda>i f.
       for_loop (py_range 1 (nat n)) (\<lambda>j f. do {
         p \<leftarrow> getScore f F (i - 1) (j - 1);
         a \<leftarrow> py_nth first_seq (i - 1);
         b \<leftarrow> py_nth second_seq (j - 1);
         let ab = p + call (scoring self) a b;
         y \<leftarrow> getScore f F i (j - 1);
         let ga = y + gapScore self;
         x \<leftarrow> getScore f F (i - 1) j;
         let gb = x + gapScore self;
         setScore f F i j (max3 ab ga gb)
       }) f) f
   }"

definition Strict_bestScore :: "AlignmentMatrix \<Rightarrow> int option" where
  "Strict_bestScore f = getScore f F (-1) (-1)"

function Strict_backtraceFrom ::
  "'a SequenceAligner_scheme \<Rightarrow> EncodedSequence \<Rightarrow> EncodedSequence \<Rightarrow> AlignmentMatrix \<Rightarrow>
   int \<Rightarrow> int \<Rightarrow> SequenceAlignment list \<Rightarrow> SequenceAlignment \<Rightarrow>
   (SequenceAlignment list \<times> SequenceAlignment) option" where
  "Strict_backtraceFrom self first_seq second_seq f i j alignments alignment =
     (if i = 0 \<and> j = 0 then Some (alignments @ [reversed alignment], alignment)
      else do {
        c \<leftarrow> getScore f F i j;
        (returned, a, alignments, alignment) \<leftarrow>
          (if i \<noteq> 0 then do {
             x \<leftarrow> getScore f F (i - 1) j;
             a \<leftarrow> py_nth first_seq (i - 1);
             if c = x + gapScore self then do {
               let alignment = push alignment a (gap alignment) (c - x);
               (alignments, alignment) \<leftarrow>
                 Strict_backtraceFrom self first_seq second_seq f (i - 1) j alignments alignment;
               (e, alignment) \<leftarrow> pop alignment;
               Some (True, Some a, alignments, alignment)
             } else Some (False, Some a, alignments, alignment)
           } else Some (False, None, alignments, alignment));
        if returned then Some (alignments, alignment)
        else do {
          (b, alignments, alignment) \<leftarrow>
            (if j \<noteq> 0 then do {
               y \<leftarrow> getScore f F i (j - 1);
               b \<leftarrow> py_nth second_seq (j - 1);
               if c = y + gapScore self then do {
                 let alignment = push alignment (gap alignment) b (c - y);
                 (alignments, alignment) \<leftarrow>
                   Strict_backtraceFrom self first_seq second_seq f i (j - 1) alignments alignment;
                 (e, alignment) \<leftarrow> pop alignment;
                 Some (Some b, alignments, alignment)
               } else Some (Some b, alignments, alignment)
             } else Some (None, alignments, alignment));
          if i \<noteq> 0 \<and> j \<noteq> 0 then do {
            p \<leftarrow> getScore f F (i - 1) (j - 1);
            a \<leftarrow> a;
            b \<leftarrow> b;
            if c = p + call (scoring self) a b then do {
              let alignment = push alignment a b (c - p);
              (alignments, alignment) \<leftarrow>
                Strict_backtraceFrom self first_seq second_seq f (i - 1) (j - 1)
                  alignments alignment;
              (e, alignment) \<leftarrow> pop alignment;
              Some (alignments, alignment)
            } else Some (alignments, alignment)
          } else Some (alignments, alignment)
        }
      })"
  by pat_completeness auto
termination
  by (relation "measure (\<lambda>(self, first_seq, second_seq, f, i, j, alignments, alignment).
                   cell_measure f i j)")
     (auto intro: cell_measure_less)

definition Strict_backtrace ::
  "'a SequenceAligner_scheme \<Rightarrow> EncodedSequence \<Rightarrow> EncodedSequence \<Rightarrow> AlignmentMatrix \<Rightarrow>
   SequenceAlignment list option" where
  "Strict_backtrace self first_seq second_seq f = do {
     let (m, n) = shape f;
     let alignments = [];
     let alignment = emptyAlignment first_seq second_seq;
     (alignments, alignment) \<leftarrow>
       Strict_backtraceFrom self first_seq second_seq f (m - 1) (n - 1) alignments alignment;
     Some alignments
   }"

definition Strict_align ::
  "'a SequenceAligner_scheme \<Rightarrow> EncodedSequence \<Rightarrow> EncodedSequence \<Rightarrow> bool \<Rightarrow>
   (int \<times> SequenceAlignment list option) option" where
  "Strict_align self first_seq second_seq backtrace = do {
     f \<leftarrow> Strict_computeAlignmentMatrix self first_seq second_seq;
     s \<leftarrow> Strict_bestScore f;
     if backtrace then do {
       alignments \<leftarrow> Strict_backtrace self first_seq second_seq f;
       Some (s, Some alignments)
     } else Some (s, None)
   }"

definition sys_maxsize :: int where
  "sys_maxsize = 2 ^ 63 - 1"

definition Local_cell ::
  "LocalSequenceAligner \<Rightarrow> EncodedSequence \<Rightarrow> EncodedSequence \<Rightarrow>
   int \<Rightarrow> int \<Rightarrow> AlignmentMatrix \<Rightarrow> AlignmentMatrix option" where
  "Local_cell self first_seq second_seq i j f = do {
     prevF \<leftarrow> getScore f F (i - 1) (j - 1);
     prevIx \<leftarrow> getScore f IX (i - 1) (j - 1);
     prevIy \<leftarrow> getScore f IY (i - 1) (j - 1);
     let maxScore = max3 prevF prevIx prevIy;
     let dirAb = tied prevF prevIx prevIy maxScore;
     a \<leftarrow> py_nth first_seq (i - 1);
     b \<leftarrow> py_nth second_seq (j - 1);
     f \<leftarrow> setScore f F i j (max 0 (maxScore + call (scoring self) a b));
     f \<leftarrow> setDirection f F i j (if maxScore > 0 then dirAb else take 1 dirAb);
     x \<leftarrow> getScore f F i (j - 1);
     b \<leftarrow> py_nth second_seq (j - 1);
     let prevF = x + gapStart (scoring self) b;
     prevIx \<leftarrow> getScore f IX i (j - 1);
     x \<leftarrow> getScore f IY i (j - 1);
     b \<leftarrow> py_nth second_seq (j - 1);
     let prevIy = x + gapStart (scoring self) b;
     let maxScore = max3 prevF prevIx prevIy;
     let dirGa = tied prevF prevIx prevIy maxScore;
     b \<leftarrow> py_nth second_seq (j - 1);
     f \<leftarrow> setScore f IX i j (max 0 (maxScore + gapExtension (scoring self) b));
     f \<leftarrow> setDirection f IX i j dirGa;
     x \<leftarrow> getScore f F (i - 1) j;
     a \<leftarrow> py_nth first_seq (i - 1);
     let prevF = x + gapStart (scoring self) a;
     x \<leftarrow> getScore f IX (i - 1) j;
     a \<leftarrow> py_nth first_seq (i - 1);
     let prevIx = x + gapStart (scoring self) a;
     prevIy \<leftarrow> getScore f IY (i - 1) j;
     let maxScore = max3 prevF prevIx prevIy;
     let dirGb = tied prevF prevIx prevIy maxScore;
     a \<leftarrow> py_nth first_seq (i - 1);
     f \<leftarrow> setScore f IY i j (max 0 (maxScore + gapExtension (scoring self) a));
     setDirection f IY i j dirGb
   }"

definition Local_computeAlignmentMatrix ::
  "LocalSequenceAligner \<Rightarrow> EncodedSequence \<Rightarrow> EncodedSequence \<Rightarrow> AlignmentMatrix option" where
  "Local_computeAlignmentMatrix self first_seq second_seq = do {
     let m = int (length first_seq) + 1;
     let n = int (length second_seq) + 1;
     let f = AlignmentMatrix_init (m, n);
     let min = - sys_maxsize;
     f \<leftarrow> for_loop (py_range 1 (nat m)) (\<lambda>i f. do {
            f \<leftarrow> setScore f F i 0 min;
            f \<leftarrow> setScore f IX i 0 min;
            f \<leftarrow> setScore f IY i 0 (max 0 (gapScore self + i * gapExtensionScore self));
            setDirection f IY i 0 [IY]
          }) f;
     f \<leftarrow> for_loop (py_range 1 (nat n)) (\<lambda>i f. do {
            f \<leftarrow> setScore f F 0 i min;
            f \<leftarrow> setScore f IX 0 i (max 0 (gapScore self + i * gapExtensionScore self));
            f \<leftarrow> setScore f IY 0 i min;
            setDirection f IX 0 i [IX]
          }) f;
     f \<leftarrow> setScore f IX 0 0 min;
     f \<leftarrow> setScore f IY 0 0 min;
     for_loop (py_range 1 (nat m)) (\<lambda>i f.
       for_loop (py_range 1 (nat n)) (\<lambda>j f. Local_cell self first_seq second_seq i j f) f) f
   }"

definition Local_bestScore :: "AlignmentMatrix \<Rightarrow> int option" where
  "Local_bestScore f = AlignmentMatrix_max f"

function Local_backtraceFrom ::
  "LocalSequenceAligner \<Rightarrow> EncodedSequence \<Rightarrow> EncodedSequence \<Rightarrow> AlignmentMatrix \<Rightarrow>
   int \<Rightarrow> int \<Rightarrow> SequenceAlignment list \<Rightarrow> SequenceAlignment \<Rightarrow> MatrixType \<Rightarrow>
   (SequenceAlignment list \<times> SequenceAlignment) option" where
  "Local_backtraceFrom self first_seq second_seq f i j alignments alignment current = do {
     s \<leftarrow> getScore f current i j;
     if s = 0 then Some (alignments @ [reversed alignment], alignment)
     else do {
       directions \<leftarrow> getDirection f current i j;
       c \<leftarrow> getScore f current i j;
       a \<leftarrow> py_nth first_seq (i - 1);
       b \<leftarrow> py_nth second_seq (j - 1);
       (case current of
          F \<Rightarrow>
            for_loop directions (\<lambda>dir (alignments, alignment). do {
              p \<leftarrow> getScore f dir (i - 1) (j - 1);
              let alignment = push alignment a b (c - p);
              (alignments, alignment) \<leftarrow>
                Local_backtraceFrom self first_seq second_seq f (i - 1) (j - 1)
                  alignments alignment dir;
              (e, alignment) \<leftarrow> pop alignment;
              Some (alignments, alignment)
            }) (alignments, alignment)
        | IX \<Rightarrow>
            for_loop directions (\<lambda>dir (alignments, alignment). do {
              y \<leftarrow> getScore f dir i (j - 1);
              let alignment = push alignment (gap alignment) b (c - y);
              (alignments, alignment) \<leftarrow>
                Local_backtraceFrom self first_seq second_seq f i (j - 1)
                  alignments alignment dir;
              (e, alignment) \<leftarrow> pop alignment;
              Some (alignments, alignment)
            }) (alignments, alignment)
        | IY \<Rightarrow>
            for_loop directions (\<lambda>dir (alignments, alignment). do {
              x \<leftarrow> getScore f dir (i - 1) j;
              let alignment = push alignment a (gap alignment) (c - x);
              (alignments, alignment) \<leftarrow>
                Local_backtraceFrom self first_seq second_seq f (i - 1) j
                  alignments alignment dir;
              (e, alignment) \<leftarrow> pop alignment;
              Some (alignments, alignment)
            }) (alignments, alignment))
     }
   }"
  by pat_completeness auto
termination
  by (relation "measure (\<lambda>(self, first_seq, second_seq, f, i, j, alignments, alignment, current).
                   cell_measure f i j)")
     (auto intro: cell_measure_less)

definition Local_backtrace ::
  "LocalSequenceAligner \<Rightarrow> EncodedSequence \<Rightarrow> EncodedSequence \<Rightarrow> AlignmentMatrix \<Rightarrow>
   SequenceAlignment list option" where
  "Local_backtrace self first_seq second_seq f = do {
     let (m, n) = shape f;
     let alignments = [];
     let alignment = emptyAlignment first_seq second_seq;
     threshold \<leftarrow> (case minScore self of None \<Rightarrow> Local_bestScore f | Some s \<Rightarrow> Some s);
     (alignments, alignment) \<leftarrow>
       for_loop (py_range 0 (nat m)) (\<lambda>i.
         for_loop (py_range 0 (nat n)) (\<lambda>j (alignments, alignment). do {
           s \<leftarrow> getScore f F i j;
           if s \<ge> threshold then
             Local_backtraceFrom self first_seq second_seq f i j alignments alignment F
           else Some (alignments, alignment)
         })) (alignments, alignment);
     Some alignments
   }"

definition Local_align ::
  "LocalSequenceAligner \<Rightarrow> EncodedSequence \<Rightarrow> EncodedSequence \<Rightarrow> bool \<Rightarrow>
   (int \<times> SequenceAlignment list option) option" where
  "Local_align self first_seq second_seq backtrace = do {
     f \<leftarrow> Local_computeAlignmentMatrix self first_seq second_seq;
     s \<leftarrow> Local_bestScore f;
     if backtrace then do {
       alignments \<leftarrow> Local_backtrace self first_seq second_seq f;
       Some (s, Some alignments)
     } else Some (s, None)
   }"

definition GlobalSequenceAligner_init :: "Scoring \<Rightarrow> bool \<Rightarrow> GlobalSequenceAligner" where
  "GlobalSequenceAligner_init sc fast =
     \<lparr> scoring = sc, gapScore = 0, gapExtensionScore = 0, fastBacktrace = fast \<rparr>"

definition StrictGlobalSequenceAligner_init :: "Scoring \<Rightarrow> int \<Rightarrow> int \<Rightarrow> SequenceAligner" where
  "StrictGlobalSequenceAligner_init sc g e =
     \<lparr> scoring = sc, gapScore = g, gapExtensionScore = e \<rparr>"

definition LocalSequenceAligner_init :: "Scoring \<Rightarrow> int option \<Rightarrow> LocalSequenceAligner" where
  "LocalSequenceAligner_init sc ms =
     \<lparr> scoring = sc, gapScore = 0, gapExtensionScore = 0, minScore = ms \<rparr>"



section \<open>The matrix store: cells inside the grid\<close>

text \<open>
  \<open>cellS\<close> and \<open>cellD\<close> read a cell by position, \<open>upd_score\<close> and \<open>upd_dir\<close> write
  one.  On a well-formed store (three score grids and three direction grids of the
  recorded shape) and a position inside the grid, the store's getters and setters do
  not raise and agree with them.
\<close>

definition cellS :: "AlignmentMatrix \<Rightarrow> MatrixType \<Rightarrow> int \<Rightarrow> int \<Rightarrow> int" where
  "cellS f t i j = matrix f t ! nat i ! nat j"

definition cellD :: "AlignmentMatrix \<Rightarrow> MatrixType \<Rightarrow> int \<Rightarrow> int \<Rightarrow> MatrixType list" where
  "cellD f t i j = direction f t ! nat i ! nat j"

definition wf_matrix :: "AlignmentMatrix \<Rightarrow> bool" where
  "wf_matrix f \<longleftrightarrow>
     0 \<le> fst (shape f) \<and> 0 \<le> snd (shape f) \<and>
     (\<forall>t. length (matrix f t) = nat (fst (shape f)) \<and>
          (\<forall>k < nat (fst (shape f)). length (matrix f t ! k) = nat (snd (shape f))) \<and>
          length (direction f t) = nat (fst (shape f)) \<and>
          (\<forall>k < nat (fst (shape f)). length (direction f t ! k) = nat (snd (shape f))))"

definition in_grid :: "AlignmentMatrix \<Rightarrow> int \<Rightarrow> int \<Rightarrow> bool" where
  "in_grid f i j \<longleftrightarrow> 0 \<le> i \<and> i < fst (shape f) \<and> 0 \<le> j \<and> j < snd (shape f)"

definition upd_score :: "AlignmentMatrix \<Rightarrow> MatrixType \<Rightarrow> int \<Rightarrow> int \<Rightarrow> int \<Rightarrow> AlignmentMatrix" where
  "upd_score f t i j v =
     f\<lparr> matrix := (matrix f)(t := (matrix f t)[nat i := (matrix f t ! nat i)[nat j := v]]) \<rparr>"

definition upd_dir ::
  "AlignmentMatrix \<Rightarrow> MatrixType \<Rightarrow> int \<Rightarrow> int \<Rightarrow> MatrixType list \<Rightarrow> AlignmentMatrix" where
  "upd_dir f t i j d =
     f\<lparr> direction := (direction f)(t := (direction f t)[nat i := (direction f t ! nat i)[nat j := d]]) \<rparr>"

lemma py_nth_in_range: "0 \<le> i \<Longrightarrow> i < int (length xs) \<Longrightarrow> py_nth xs i = Some (xs ! nat i)"
  by (simp add: py_nth_def Let_def)

lemma py_set_in_range: "0 \<le> i \<Longrightarrow> i < int (length xs) \<Longrightarrow> py_set xs i v = Some (xs[nat i := v])"
  by (simp add: py_set_def Let_def)

lemma py_nth_last: "xs \<noteq> [] \<Longrightarrow> py_nth xs (-1) = Some (xs ! (length xs - 1))"
  by (cases xs) (auto simp: py_nth_def Let_def nat_diff_distrib' intro!: arg_cong[where f="\<lambda>k. _ ! k"])

lemma wf_lengths:
  assumes "wf_matrix f"
  shows "length (matrix f t) = nat (fst (shape f))"
    and "length (direction f t) = nat (fst (shape f))"
    and "0 \<le> i \<Longrightarrow> i < fst (shape f) \<Longrightarrow> length (matrix f t ! nat i) = nat (snd (shape f))"
    and "0 \<le> i \<Longrightarrow> i < fst (shape f) \<Longrightarrow> length (direction f t ! nat i) = nat (snd (shape f))"
  using assms unfolding wf_matrix_def by (simp_all add: nat_less_iff)

lemma getScore_in_grid:
  assumes "wf_matrix f" "in_grid f i j"
  shows "getScore f t i j = Some (cellS f t i j)"
proof -
  have i: "0 \<le> i" "i < int (length (matrix f t))" and j: "0 \<le> j" "j < int (length (matrix f t ! nat i))"
    using assms wf_lengths[OF assms(1)] by (simp_all add: in_grid_def)
  show ?thesis
    by (simp add: getScore_def cellS_def py_nth_in_range[OF i] py_nth_in_range[OF j])
qed

lemma getDirection_in_grid:
  assumes "wf_matrix f" "in_grid f i j"
  shows "getDirection f t i j = Some (cellD f t i j)"
proof -
  have i: "0 \<le> i" "i < int (length (direction f t))" and j: "0 \<le> j" "j < int (length (direction f t ! nat i))"
    using assms wf_lengths[OF assms(1)] by (simp_all add: in_grid_def)
  show ?thesis
    by (simp add: getDirection_def cellD_def py_nth_in_range[OF i] py_nth_in_range[OF j])
qed

lemma setScore_in_grid:
  assumes "wf_matrix f" "in_grid f i j"
  shows "setScore f t i j v = Some (upd_score f t i j v)"
proof -
  have i: "0 \<le> i" "i < int (length (matrix f t))" and j: "0 \<le> j" "j < int (length (matrix f t ! nat i))"
    using assms wf_lengths[OF assms(1)] by (simp_all add: in_grid_def)
  show ?thesis
    by (simp add: setScore_def upd_score_def py_nth_in_range[OF i] py_set_in_range[OF j]
        py_set_in_range[OF i])
qed

lemma setDirection_in_grid:
  assumes "wf_matrix f" "in_grid f i j"
  shows "setDirection f t i j d = Some (upd_dir f t i j d)"
proof -
  have i: "0 \<le> i" "i < int (length (direction f t))" and j: "0 \<le> j" "j < int (length (direction f t ! nat i))"
    using assms wf_lengths[OF assms(1)] by (simp_all add: in_grid_def)
  show ?thesis
    by (simp add: setDirection_def upd_dir_def py_nth_in_range[OF i] py_set_in_range[OF j]
        py_set_in_range[OF i])
qed

lemma shape_upd [simp]:
  "shape (upd_score f t i j v) = shape f" "shape (upd_dir f t i j d) = shape f"
  by (simp_all add: upd_score_def upd_dir_def)

lemma in_grid_upd [simp]:
  "in_grid (upd_score f t i j v) i' j' = in_grid f i' j'"
  "in_grid (upd_dir f t i j d) i' j' = in_grid f i' j'"
  by (simp_all add: in_grid_def)

lemma length_update_row:
  "k < length rows \<Longrightarrow> length ((rows[i := (rows ! i)[j := v]]) ! k) = length (rows ! k)"
  by (cases "k = i") simp_all

lemma wf_upd_score [simp]: "wf_matrix f \<Longrightarrow> wf_matrix (upd_score f t i j v)"
  unfolding wf_matrix_def upd_score_def by (simp add: length_update_row)

lemma wf_upd_dir [simp]: "wf_matrix f \<Longrightarrow> wf_matrix (upd_dir f t i j d)"
  unfolding wf_matrix_def upd_dir_def by (simp add: length_update_row)

lemma nth_update_row:
  "i < length rows \<Longrightarrow> j < length (rows ! i) \<Longrightarrow>
   (rows[i := (rows ! i)[j := v]]) ! i' ! j' = (if i' = i \<and> j' = j then v else rows ! i' ! j')"
  by (cases "i' = i") (simp_all add: nth_list_update)

lemma cellS_upd_score:
  assumes "wf_matrix f" "in_grid f i j" "0 \<le> i'" "0 \<le> j'"
  shows "cellS (upd_score f t i j v) t' i' j' =
     (if t' = t \<and> i' = i \<and> j' = j then v else cellS f t' i' j')"
proof -
  have i: "nat i < length (matrix f t)" and j: "nat j < length (matrix f t ! nat i)"
    using assms wf_lengths[OF assms(1)] by (simp_all add: in_grid_def nat_less_iff)
  have eq: "(nat i' = nat i \<and> nat j' = nat j) = (i' = i \<and> j' = j)"
    using assms by (auto simp: in_grid_def)
  show ?thesis
    by (simp add: cellS_def upd_score_def nth_update_row[OF i j] eq)
qed

lemma cellD_upd_dir:
  assumes "wf_matrix f" "in_grid f i j" "0 \<le> i'" "0 \<le> j'"
  shows "cellD (upd_dir f t i j d) t' i' j' =
     (if t' = t \<and> i' = i \<and> j' = j then d else cellD f t' i' j')"
proof -
  have i: "nat i < length (direction f t)" and j: "nat j < length (direction f t ! nat i)"
    using assms wf_lengths[OF assms(1)] by (simp_all add: in_grid_def nat_less_iff)
  have eq: "(nat i' = nat i \<and> nat j' = nat j) = (i' = i \<and> j' = j)"
    using assms by (auto simp: in_grid_def)
  show ?thesis
    by (simp add: cellD_def upd_dir_def nth_update_row[OF i j] eq)
qed

lemma cellS_upd_dir [simp]: "cellS (upd_dir f t i j d) t' i' j' = cellS f t' i' j'"
  by (simp add: cellS_def upd_dir_def)

lemma cellD_upd_score [simp]: "cellD (upd_score f t i j v) t' i' j' = cellD f t' i' j'"
  by (simp add: cellD_def upd_score_def)

lemma wf_init: "0 \<le> m \<Longrightarrow> 0 \<le> n \<Longrightarrow> wf_matrix (AlignmentMatrix_init (m, n))"
  by (simp add: wf_matrix_def AlignmentMatrix_init_def make_matrix_def)

lemma shape_init [simp]: "shape (AlignmentMatrix_init shp) = shp"
  by (simp add: AlignmentMatrix_init_def)

lemma cell_init:
  "0 \<le> i \<Longrightarrow> i < m \<Longrightarrow> 0 \<le> j \<Longrightarrow> j < n \<Longrightarrow>
   cellS (AlignmentMatrix_init (m, n)) t i j = 0 \<and> cellD (AlignmentMatrix_init (m, n)) t i j = []"
  by (simp add: cellS_def cellD_def AlignmentMatrix_init_def make_matrix_def)

lemma getScore_last:
  assumes wf: "wf_matrix f" and m: "0 < fst (shape f)" and n: "0 < snd (shape f)"
  shows "getScore f t (-1) (-1) = Some (cellS f t (fst (shape f) - 1) (snd (shape f) - 1))"
proof -
  let ?rows = "matrix f t"
  have len: "length ?rows = nat (fst (shape f))" using wf by (simp add: wf_matrix_def)
  then have ne: "?rows \<noteq> []" using m by auto
  have r: "py_nth ?rows (-1) = Some (?rows ! (length ?rows - 1))" by (rule py_nth_last[OF ne])
  let ?row = "?rows ! (length ?rows - 1)"
  have idx1: "length ?rows - 1 = nat (fst (shape f) - 1)" using len m by simp
  have rl: "length ?row = nat (snd (shape f))"
    unfolding idx1 using wf_lengths(3)[OF wf, where i="fst (shape f) - 1" and t=t] m by simp
  then have rne: "?row \<noteq> []" using n by auto
  have idx2: "length ?row - 1 = nat (snd (shape f) - 1)" using rl n by simp
  show ?thesis
    unfolding getScore_def r using py_nth_last[OF rne] idx1 idx2 by (simp add: cellS_def)
qed

lemma for_loop_append:
  "for_loop (xs @ ys) body st = (case for_loop xs body st of None \<Rightarrow> None | Some st' \<Rightarrow> for_loop ys body st')"
  by (induction xs arbitrary: st) (auto split: option.splits)

lemma py_range_Suc: "a \<le> b \<Longrightarrow> py_range a (Suc b) = py_range a b @ [int b]"
  by (simp add: py_range_def)

lemma for_loop_range_rule:
  assumes "a \<le> b" and "P (int a) st"
    and step: "\<And>i s. int a \<le> i \<Longrightarrow> i < int b \<Longrightarrow> P i s \<Longrightarrow> \<exists>s'. body i s = Some s' \<and> P (i + 1) s'"
  shows "\<exists>st'. for_loop (py_range a b) body st = Some st' \<and> P (int b) st'"
  using assms(1) step
proof (induction b)
  case 0
  then show ?case using assms(2) by (simp add: py_range_def)
next
  case (Suc b)
  show ?case
  proof (cases "a = Suc b")
    case True
    then show ?thesis using assms(2) by (simp add: py_range_def)
  next
    case False
    then have ab: "a \<le> b" using Suc.prems(1) by simp
    have "\<exists>st'. for_loop (py_range a b) body st = Some st' \<and> P (int b) st'"
    proof (rule Suc.IH[OF ab])
      fix i s assume "int a \<le> i" "i < int b" "P i s"
      then show "\<exists>s'. body i s = Some s' \<and> P (i + 1) s'" using Suc.prems(2)[of i s] by simp
    qed
    then obtain st1 where st1: "for_loop (py_range a b) body st = Some st1" "P (int b) st1"
      by blast
    have "\<exists>s'. body (int b) st1 = Some s' \<and> P (int b + 1) s'"
      using Suc.prems(2)[of "int b" st1] ab st1(2) by simp
    then obtain st2 where st2: "body (int b) st1 = Some st2" "P (int b + 1) st2" by blast
    have "for_loop (py_range a (Suc b)) body st = Some st2"
      by (simp add: py_range_Suc[OF ab] for_loop_append st1(1) st2(1))
    moreover have "P (int (Suc b)) st2" using st2(2) by (simp add: add.commute)
    ultimately show ?thesis by blast
  qed
qed


section \<open>The accumulator: push, pop and the metrics\<close>

lemma list_pop_append: "list_pop (xs @ [x]) = Some (x, xs)"
  by (simp add: list_pop_def)

lemma seq_pop_push: "seq_pop (seq_push xs e) = Some (e, xs)"
  by (simp add: seq_pop_def seq_push_def list_pop_append)

lemma pop_push: "pop (push al a b s) = Some ((a, b), al)"
  by (simp add: pop_def push_def Let_def seq_pop_push list_pop_append)


text \<open>
  Claim C7.  Each of the five percentage metrics returns 0.0 when its denominator is
  zero: the three metrics over the alignment length when \<open>__len__\<close> returns 0, the two
  preserved variants when the preserved count is 0.  No metric ever lets a
  \<open>ZeroDivisionError\<close> escape.
\<close>

theorem percent_metrics_zero_denominator:
  "(len_alignment al = Inr 0 \<longrightarrow>
      percentIdentity al = Inr 0 \<and> percentSimilarity al = Inr 0 \<and> percentGap al = Inr 0)
   \<and> (preservedCount al = 0 \<longrightarrow>
      percentPreservedIdentity al = Inr 0 \<and> percentPreservedSimilarity al = Inr 0)
   \<and> percentIdentity al \<noteq> Inl ZeroDivisionError
   \<and> percentSimilarity al \<noteq> Inl ZeroDivisionError
   \<and> percentGap al \<noteq> Inl ZeroDivisionError
   \<and> percentPreservedIdentity al \<noteq> Inl ZeroDivisionError
   \<and> percentPreservedSimilarity al \<noteq> Inl ZeroDivisionError"
  by (auto simp: percentIdentity_def percentSimilarity_def percentGap_def
      percentPreservedIdentity_def percentPreservedSimilarity_def
      except_ZeroDivisionError_def py_truediv_def len_alignment_def
      split: sum.splits py_error.splits if_splits)

theorem percent_metrics_zero_denominator_witness:
  "len_alignment (emptyAlignment [] []) = Inr 0
   \<and> preservedCount (emptyAlignment [] []) = 0
   \<and> percentIdentity (emptyAlignment [] []) = Inr 0
   \<and> percentSimilarity (emptyAlignment [] []) = Inr 0
   \<and> percentGap (emptyAlignment [] []) = Inr 0
   \<and> percentPreservedIdentity (emptyAlignment [] []) = Inr 0
   \<and> percentPreservedSimilarity (emptyAlignment [] []) = Inr 0"
proof -
  have len: "len_alignment (emptyAlignment [] []) = Inr 0"
    by (simp add: len_alignment_def emptyAlignment_def SequenceAlignment_init_def)
  have pres: "preservedCount (emptyAlignment [] []) = 0"
    by (simp add: emptyAlignment_def SequenceAlignment_init_def)
  show ?thesis
    using percent_metrics_zero_denominator [of "emptyAlignment [] []"] len pres by simp
qed


section \<open>Affine-global alignment: the boundary of the backtrace\<close>

lemma py_range_empty [simp]: "py_range a a = []"
  by (simp add: py_range_def)

lemma py_max_zeros: "py_max [0, 0, 0] = Some 0"
  by (simp add: py_max_def)

lemma getScore_last_init:
  assumes "0 < m" "0 < n"
  shows "getScore (AlignmentMatrix_init (m, n)) t (-1) (-1) = Some 0"
proof -
  have wf: "wf_matrix (AlignmentMatrix_init (m, n))" using assms by (simp add: wf_init)
  show ?thesis
    using getScore_last[OF wf, of t] assms cell_init[of "m - 1" m "n - 1" n t] by simp
qed

lemma Global_bestScore_init:
  assumes "0 < m" "0 < n"
  shows "Global_bestScore (AlignmentMatrix_init (m, n)) = Some 0"
  by (simp add: Global_bestScore_def MatrixType_all_def getScore_last_init[OF assms] py_max_zeros)

lemma Global_backtraceFrom_boundary:
  "i = 0 \<or> j = 0 \<Longrightarrow>
   Global_backtraceFrom self xs ys f i j als al cur =
     Some (if cur = F then als @ [reversed al] else als, al)"
  by (subst Global_backtraceFrom.simps) auto




section \<open>Affine-global alignment of an empty first sequence\<close>

lemma Global_compute_empty_first:
  "Global_computeAlignmentMatrix self [] ys = Some (AlignmentMatrix_init (1, int (length ys) + 1))"
  by (simp add: Global_computeAlignmentMatrix_def)

lemma Global_backtrace_empty_first:
  "Global_backtrace self [] ys (AlignmentMatrix_init (1, int (length ys) + 1))
     = Some [reversed (emptyAlignment [] ys)]"
proof -
  have n: "0 < int (length ys) + 1" by simp
  have gs: "\<And>t. getScore (AlignmentMatrix_init (1, int (length ys) + 1)) t (-1) (-1) = Some 0"
    by (rule getScore_last_init) simp_all
  show ?thesis
    by (cases "fastBacktrace self")
       (simp_all add: Global_backtrace_def Global_bestScore_init[OF _ n] gs MatrixType_all_def
        Global_backtraceFrom_boundary Let_def)
qed

lemma Global_align_empty_first_aux:
  "Global_align self [] ys True = Some (0, Some [reversed (emptyAlignment [] ys)])"
  by (simp add: Global_align_def Global_compute_empty_first Global_bestScore_init
      Global_backtrace_empty_first)

text \<open>
  Claim C5, as amended.  For every nonempty second sequence, aligning an empty first
  sequence against it in affine-global mode does not raise and returns best score 0,
  whatever the gap costs, together with exactly one alignment; that alignment has no
  column at all (both output sequences are empty) and score 0.
\<close>

theorem Global_align_empty_first:
  "ys \<noteq> [] \<Longrightarrow>
   Global_align self [] ys True = Some (0, Some [reversed (emptyAlignment [] ys)])
   \<and> first (reversed (emptyAlignment [] ys)) = []
   \<and> second (reversed (emptyAlignment [] ys)) = []
   \<and> score (reversed (emptyAlignment [] ys)) = 0"
  by (simp add: Global_align_empty_first_aux)
     (simp add: reversed_def emptyAlignment_def SequenceAlignment_init_def seq_reversed_def)

theorem Global_align_empty_first_witness:
  "[7] \<noteq> ([] :: int list) \<and>
   Global_align (GlobalSequenceAligner_init (SimpleScoring 2 (-1) (-2) (-1)) False) [] [7] True
     = Some (0, Some [reversed (emptyAlignment [] [7])])"
  using Global_align_empty_first
          [of "[7]" "GlobalSequenceAligner_init (SimpleScoring 2 (-1) (-2) (-1)) False"]
  by simp

text \<open>
  The claim as stated fails: with gap-open cost \<open>g = -2\<close>, extension cost \<open>e = -1\<close> and a
  second sequence of length 1 the claimed score is \<open>g + (1 - 1) * e = -2\<close>, and the code
  returns 0.
\<close>

theorem Global_align_empty_first_score_counterexample:
  "map_option fst
     (Global_align (GlobalSequenceAligner_init (SimpleScoring 2 (-1) (-2) (-1)) False) [] [7] True)
     = Some 0
   \<and> (0 :: int) \<noteq> (-2) + (int (length [7 :: int]) - 1) * (-1)"
  by (simp add: Global_align_empty_first_aux)


section \<open>Affine-global fill: the recurrence of the filled matrix\<close>

text \<open>
  The three predicates state, for one cell of a matrix, the recurrence that the fill
  writes there, read on the matrix itself: the Match score and its tied predecessors,
  and the two gap states, whose opening and extension costs are dropped in the last
  row (GapInFirst) and in the last column (GapInSecond).  \<open>Global_fill\<close> shows that the
  fill does not raise and that every cell with \<open>i, j \<ge> 1\<close> of its result satisfies them,
  while the cells with \<open>i = 0\<close> or \<open>j = 0\<close> keep score 0 and no predecessor.
\<close>

definition Global_match_ok ::
  "'a SequenceAligner_scheme \<Rightarrow> EncodedSequence \<Rightarrow> EncodedSequence \<Rightarrow> AlignmentMatrix \<Rightarrow> int \<Rightarrow> int \<Rightarrow> bool" where
  "Global_match_ok self xs ys f i j \<longleftrightarrow>
     cellS f F i j =
       max3 (cellS f F (i - 1) (j - 1)) (cellS f IX (i - 1) (j - 1)) (cellS f IY (i - 1) (j - 1))
       + call (scoring self) (xs ! nat (i - 1)) (ys ! nat (j - 1))
     \<and> cellD f F i j =
       tied (cellS f F (i - 1) (j - 1)) (cellS f IX (i - 1) (j - 1)) (cellS f IY (i - 1) (j - 1))
         (max3 (cellS f F (i - 1) (j - 1)) (cellS f IX (i - 1) (j - 1)) (cellS f IY (i - 1) (j - 1)))"

definition Global_gapfirst_ok ::
  "'a SequenceAligner_scheme \<Rightarrow> EncodedSequence \<Rightarrow> EncodedSequence \<Rightarrow> AlignmentMatrix \<Rightarrow> int \<Rightarrow> int \<Rightarrow> bool" where
  "Global_gapfirst_ok self xs ys f i j \<longleftrightarrow>
     (let b = ys ! nat (j - 1);
          g = (if i = fst (shape f) - 1 then 0 else gapStart (scoring self) b);
          e = (if i = fst (shape f) - 1 then 0 else gapExtension (scoring self) b);
          pF = cellS f F i (j - 1) + g; pIx = cellS f IX i (j - 1); pIy = cellS f IY i (j - 1) + g
      in cellS f IX i j = max3 pF pIx pIy + e \<and> cellD f IX i j = tied pF pIx pIy (max3 pF pIx pIy))"

definition Global_gapsecond_ok ::
  "'a SequenceAligner_scheme \<Rightarrow> EncodedSequence \<Rightarrow> EncodedSequence \<Rightarrow> AlignmentMatrix \<Rightarrow> int \<Rightarrow> int \<Rightarrow> bool" where
  "Global_gapsecond_ok self xs ys f i j \<longleftrightarrow>
     (let a = xs ! nat (i - 1);
          g = (if j = snd (shape f) - 1 then 0 else gapStart (scoring self) a);
          e = (if j = snd (shape f) - 1 then 0 else gapExtension (scoring self) a);
          pF = cellS f F (i - 1) j + g; pIx = cellS f IX (i - 1) j + g; pIy = cellS f IY (i - 1) j
      in cellS f IY i j = max3 pF pIx pIy + e \<and> cellD f IY i j = tied pF pIx pIy (max3 pF pIx pIy))"

definition same_except :: "AlignmentMatrix \<Rightarrow> AlignmentMatrix \<Rightarrow> int \<Rightarrow> int \<Rightarrow> bool" where
  "same_except f' f i j \<longleftrightarrow>
     wf_matrix f' \<and> shape f' = shape f \<and>
     (\<forall>t i' j'. 0 \<le> i' \<longrightarrow> 0 \<le> j' \<longrightarrow> (i' \<noteq> i \<or> j' \<noteq> j) \<longrightarrow>
        cellS f' t i' j' = cellS f t i' j' \<and> cellD f' t i' j' = cellD f t i' j')"

lemma same_except_upd_score:
  "wf_matrix f \<Longrightarrow> in_grid f i j \<Longrightarrow> same_except f f0 i j \<Longrightarrow> same_except (upd_score f t i j v) f0 i j"
  by (auto simp: same_except_def cellS_upd_score)

lemma same_except_upd_dir:
  "wf_matrix f \<Longrightarrow> in_grid f i j \<Longrightarrow> same_except f f0 i j \<Longrightarrow> same_except (upd_dir f t i j d) f0 i j"
  by (auto simp: same_except_def cellD_upd_dir)

lemma same_except_refl: "wf_matrix f \<Longrightarrow> same_except f f i j"
  by (simp add: same_except_def)

lemma Global_cell_step:
  assumes wf: "wf_matrix f" and shp: "shape f = (m, n)"
    and lx: "int (length xs) = m - 1" and ly: "int (length ys) = n - 1"
    and ij: "1 \<le> i" "i < m" "1 \<le> j" "j < n"
  shows "\<exists>f'. Global_cell self xs ys m n i j f = Some f' \<and> same_except f' f i j
           \<and> Global_match_ok self xs ys f' i j \<and> Global_gapfirst_ok self xs ys f' i j
           \<and> Global_gapsecond_ok self xs ys f' i j"
proof -
  have g: "in_grid f i j" "in_grid f (i - 1) (j - 1)" "in_grid f i (j - 1)" "in_grid f (i - 1) j"
    using ij shp by (simp_all add: in_grid_def)
  have a: "py_nth xs (i - 1) = Some (xs ! nat (i - 1))"
    using ij lx by (intro py_nth_in_range) simp_all
  have b: "py_nth ys (j - 1) = Some (ys ! nat (j - 1))"
    using ij ly by (intro py_nth_in_range) simp_all
  have nn: "0 \<le> i" "0 \<le> j" "0 \<le> i - 1" "0 \<le> j - 1" using ij by simp_all
  have c: "(i = m - 1) = (m = i + 1)" "(j = n - 1) = (n = j + 1)" by auto
  have sh: "fst (shape f) = m" "snd (shape f) = n" using shp by simp_all
  note rw = getScore_in_grid setScore_in_grid setDirection_in_grid wf g a b
    cellS_upd_score cellD_upd_dir c sh
  show ?thesis
  proof (cases "m = i + 1")
    case mi: True
    show ?thesis
    proof (cases "n = j + 1")
      case True
      show ?thesis unfolding Global_cell_def using ij
        by (simp add: rw mi True Let_def same_except_def Global_match_ok_def
            Global_gapfirst_ok_def Global_gapsecond_ok_def)
    next
      case False
      show ?thesis unfolding Global_cell_def using ij
        by (simp add: rw mi False Let_def same_except_def Global_match_ok_def
            Global_gapfirst_ok_def Global_gapsecond_ok_def)
    qed
  next
    case mi: False
    show ?thesis
    proof (cases "n = j + 1")
      case True
      show ?thesis unfolding Global_cell_def using ij
        by (simp add: rw mi True Let_def same_except_def Global_match_ok_def
            Global_gapfirst_ok_def Global_gapsecond_ok_def)
    next
      case False
      show ?thesis unfolding Global_cell_def using ij
        by (simp add: rw mi False Let_def same_except_def Global_match_ok_def
            Global_gapfirst_ok_def Global_gapsecond_ok_def)
    qed
  qed
qed


definition before :: "int \<Rightarrow> int \<Rightarrow> int \<Rightarrow> int \<Rightarrow> bool" where
  "before i' j' i j \<longleftrightarrow> i' < i \<or> (i' = i \<and> j' < j)"

lemma nested_loop_rule:
  assumes W: "W f0" and m: "1 \<le> m" and n: "1 \<le> n"
    and step: "\<And>i j f. 1 \<le> i \<Longrightarrow> i < int m \<Longrightarrow> 1 \<le> j \<Longrightarrow> j < int n \<Longrightarrow> W f \<Longrightarrow>
        (\<forall>i' j'. 1 \<le> i' \<longrightarrow> 1 \<le> j' \<longrightarrow> j' < int n \<longrightarrow> before i' j' i j \<longrightarrow> R i' j' f) \<Longrightarrow>
        \<exists>f'. body i j f = Some f' \<and> W f' \<and> R i j f' \<and>
          (\<forall>i' j'. 1 \<le> i' \<longrightarrow> 1 \<le> j' \<longrightarrow> j' < int n \<longrightarrow> before i' j' i j \<longrightarrow> R i' j' f')"
  shows "\<exists>f'. for_loop (py_range 1 m) (\<lambda>i f. for_loop (py_range 1 n) (\<lambda>j f. body i j f) f) f0 = Some f'
           \<and> W f' \<and> (\<forall>i j. 1 \<le> i \<longrightarrow> i < int m \<longrightarrow> 1 \<le> j \<longrightarrow> j < int n \<longrightarrow> R i j f')"
proof -
  define Q where "Q i j f \<longleftrightarrow> W f \<and>
     (\<forall>i' j'. 1 \<le> i' \<longrightarrow> 1 \<le> j' \<longrightarrow> j' < int n \<longrightarrow> before i' j' i j \<longrightarrow> R i' j' f)" for i j f
  have inner: "\<exists>f'. for_loop (py_range 1 n) (\<lambda>j f. body i j f) f = Some f' \<and> Q (i + 1) 1 f'"
    if i: "int 1 \<le> i" "i < int m" and Qi: "Q i 1 f" for i f
  proof -
    have "\<exists>f'. for_loop (py_range 1 n) (\<lambda>j f. body i j f) f = Some f' \<and> Q i (int n) f'"
    proof (rule for_loop_range_rule[where P = "\<lambda>j f. Q i j f", OF n])
      show "Q i (int 1) f" using Qi by simp
    next
      fix j s assume j: "int 1 \<le> j" "j < int n" and Qj: "Q i j s"
      from step[of i j s] i j Qj
      obtain s' where s': "body i j s = Some s'" "W s'" "R i j s'"
        "\<forall>i' j'. 1 \<le> i' \<longrightarrow> 1 \<le> j' \<longrightarrow> j' < int n \<longrightarrow> before i' j' i j \<longrightarrow> R i' j' s'"
        unfolding Q_def by auto
      have "Q i (j + 1) s'"
        unfolding Q_def
      proof (intro conjI allI impI)
        show "W s'" by (rule s'(2))
      next
        fix i' j' assume a: "1 \<le> i'" "1 \<le> j'" "j' < int n" "before i' j' i (j + 1)"
        then have "before i' j' i j \<or> (i' = i \<and> j' = j)" by (auto simp: before_def)
        then show "R i' j' s'" using s'(3,4) a by auto
      qed
      then show "\<exists>s'. body i j s = Some s' \<and> Q i (j + 1) s'" using s'(1) by blast
    qed
    then obtain f' where f': "for_loop (py_range 1 n) (\<lambda>j f. body i j f) f = Some f'" "Q i (int n) f'"
      by blast
    have "Q (i + 1) 1 f'"
      unfolding Q_def
    proof (intro conjI allI impI)
      show "W f'" using f'(2) by (simp add: Q_def)
    next
      fix i' j' assume a: "1 \<le> i'" "1 \<le> j'" "j' < int n" "before i' j' (i + 1) 1"
      then have "before i' j' i (int n)" by (auto simp: before_def)
      then show "R i' j' f'" using f'(2) a unfolding Q_def by blast
    qed
    then show ?thesis using f'(1) by blast
  qed
  have "\<exists>f'. for_loop (py_range 1 m) (\<lambda>i f. for_loop (py_range 1 n) (\<lambda>j f. body i j f) f) f0 = Some f'
          \<and> Q (int m) 1 f'"
  proof (rule for_loop_range_rule[where P = "\<lambda>i f. Q i 1 f", OF m])
    show "Q (int 1) 1 f0" using W unfolding Q_def before_def by auto
  next
    fix i s assume "int 1 \<le> i" "i < int m" "Q i 1 s"
    then show "\<exists>s'. for_loop (py_range 1 n) (\<lambda>j f. body i j f) s = Some s' \<and> Q (i + 1) 1 s'"
      by (rule inner)
  qed
  then obtain f' where f': "for_loop (py_range 1 m) (\<lambda>i f. for_loop (py_range 1 n) (\<lambda>j f. body i j f) f) f0 = Some f'"
    "Q (int m) 1 f'" by blast
  have "\<forall>i j. 1 \<le> i \<longrightarrow> i < int m \<longrightarrow> 1 \<le> j \<longrightarrow> j < int n \<longrightarrow> R i j f'"
  proof (intro allI impI)
    fix i j assume a: "1 \<le> i" "i < int m" "1 \<le> j" "j < int n"
    then have "before i j (int m) 1" by (simp add: before_def)
    then show "R i j f'" using f'(2) a unfolding Q_def by blast
  qed
  then show ?thesis using f' unfolding Q_def by blast
qed

definition Global_rec ::
  "'a SequenceAligner_scheme \<Rightarrow> EncodedSequence \<Rightarrow> EncodedSequence \<Rightarrow> AlignmentMatrix \<Rightarrow> int \<Rightarrow> int \<Rightarrow> bool" where
  "Global_rec self xs ys f i j \<longleftrightarrow>
     Global_match_ok self xs ys f i j \<and> Global_gapfirst_ok self xs ys f i j
     \<and> Global_gapsecond_ok self xs ys f i j"

lemma same_except_cells:
  assumes "same_except f' f i j" "0 \<le> a" "0 \<le> b" "a \<noteq> i \<or> b \<noteq> j"
  shows "cellS f' t a b = cellS f t a b" "cellD f' t a b = cellD f t a b"
  using assms unfolding same_except_def by auto

lemma Global_rec_frame:
  assumes se: "same_except f' f i j" and b: "before i' j' i j" and p: "1 \<le> i'" "1 \<le> j'"
  shows "Global_rec self xs ys f' i' j' = Global_rec self xs ys f i' j'"
proof -
  have sh: "shape f' = shape f" using se by (simp add: same_except_def)
  have c: "\<And>t. cellS f' t i' j' = cellS f t i' j'" "\<And>t. cellD f' t i' j' = cellD f t i' j'"
    "\<And>t. cellS f' t (i' - 1) (j' - 1) = cellS f t (i' - 1) (j' - 1)"
    "\<And>t. cellS f' t i' (j' - 1) = cellS f t i' (j' - 1)"
    "\<And>t. cellS f' t (i' - 1) j' = cellS f t (i' - 1) j'"
    using b p by (auto simp: before_def intro!: same_except_cells[OF se])
  show ?thesis
    by (simp add: Global_rec_def Global_match_ok_def Global_gapfirst_ok_def
        Global_gapsecond_ok_def c sh)
qed

definition boundary_zero :: "AlignmentMatrix \<Rightarrow> bool" where
  "boundary_zero f \<longleftrightarrow>
     (\<forall>t i j. in_grid f i j \<longrightarrow> i = 0 \<or> j = 0 \<longrightarrow> cellS f t i j = 0 \<and> cellD f t i j = [])"

lemma Global_fill:
  "\<exists>f. Global_computeAlignmentMatrix self xs ys = Some f \<and> wf_matrix f
       \<and> shape f = (int (length xs) + 1, int (length ys) + 1) \<and> boundary_zero f
       \<and> (\<forall>i j. 1 \<le> i \<longrightarrow> i \<le> int (length xs) \<longrightarrow> 1 \<le> j \<longrightarrow> j \<le> int (length ys) \<longrightarrow>
            Global_rec self xs ys f i j)"
proof -
  let ?m = "int (length xs) + 1" and ?n = "int (length ys) + 1"
  let ?f0 = "AlignmentMatrix_init (?m, ?n)"
  define W where "W f \<longleftrightarrow> wf_matrix f \<and> shape f = (?m, ?n) \<and> boundary_zero f" for f
  have W0: "W ?f0"
    unfolding W_def boundary_zero_def by (simp add: wf_init in_grid_def cell_init)
  have nm: "nat ?m = Suc (length xs)" "nat ?n = Suc (length ys)" by simp_all
  have "\<exists>f'. for_loop (py_range 1 (Suc (length xs)))
          (\<lambda>i f. for_loop (py_range 1 (Suc (length ys)))
             (\<lambda>j f. Global_cell self xs ys ?m ?n i j f) f) ?f0 = Some f'
        \<and> W f' \<and> (\<forall>i j. 1 \<le> i \<longrightarrow> i < int (Suc (length xs)) \<longrightarrow> 1 \<le> j \<longrightarrow> j < int (Suc (length ys)) \<longrightarrow>
              Global_rec self xs ys f' i j)"
  proof (rule nested_loop_rule[where W = W and R = "\<lambda>i j f. Global_rec self xs ys f i j", OF W0])
    show "1 \<le> Suc (length xs)" "1 \<le> Suc (length ys)" by simp_all
  next
    fix i j f
    assume ij: "1 \<le> i" "i < int (Suc (length xs))" "1 \<le> j" "j < int (Suc (length ys))"
      and Wf: "W f"
      and prev: "\<forall>i' j'. 1 \<le> i' \<longrightarrow> 1 \<le> j' \<longrightarrow> j' < int (Suc (length ys)) \<longrightarrow> before i' j' i j \<longrightarrow>
                  Global_rec self xs ys f i' j'"
    have wf: "wf_matrix f" and shp: "shape f = (?m, ?n)" and bz: "boundary_zero f"
      using Wf by (simp_all add: W_def)
    from Global_cell_step[OF wf shp, of xs ys i j self] ij
    obtain f' where f': "Global_cell self xs ys ?m ?n i j f = Some f'" "same_except f' f i j"
      "Global_match_ok self xs ys f' i j" "Global_gapfirst_ok self xs ys f' i j"
      "Global_gapsecond_ok self xs ys f' i j" by auto
    have wf': "wf_matrix f'" and shp': "shape f' = shape f"
      using f'(2) by (simp_all add: same_except_def)
    have bz': "boundary_zero f'"
      unfolding boundary_zero_def
    proof (intro allI impI)
      fix t a b assume g: "in_grid f' a b" and z: "a = 0 \<or> b = 0"
      have ne: "a \<noteq> i \<or> b \<noteq> j" using z ij by auto
      have g0: "0 \<le> a" "0 \<le> b" using g by (simp_all add: in_grid_def)
      have "in_grid f a b" using g shp' by (simp add: in_grid_def)
      then have "cellS f t a b = 0 \<and> cellD f t a b = []"
        using bz z unfolding boundary_zero_def by blast
      then show "cellS f' t a b = 0 \<and> cellD f' t a b = []"
        using same_except_cells[OF f'(2) g0 ne, of t] by simp
    qed
    have "W f'" using wf' shp' shp bz' by (simp add: W_def)
    moreover have "Global_rec self xs ys f' i j" using f'(3-5) by (simp add: Global_rec_def)
    moreover have "\<forall>i' j'. 1 \<le> i' \<longrightarrow> 1 \<le> j' \<longrightarrow> j' < int (Suc (length ys)) \<longrightarrow> before i' j' i j \<longrightarrow>
                  Global_rec self xs ys f' i' j'"
      using prev Global_rec_frame[OF f'(2)] by blast
    ultimately show "\<exists>f'. Global_cell self xs ys ?m ?n i j f = Some f' \<and> W f'
        \<and> Global_rec self xs ys f' i j
        \<and> (\<forall>i' j'. 1 \<le> i' \<longrightarrow> 1 \<le> j' \<longrightarrow> j' < int (Suc (length ys)) \<longrightarrow> before i' j' i j \<longrightarrow>
                  Global_rec self xs ys f' i' j')"
      using f'(1) by blast
  qed
  then obtain f' where f': "for_loop (py_range 1 (Suc (length xs)))
          (\<lambda>i f. for_loop (py_range 1 (Suc (length ys)))
             (\<lambda>j f. Global_cell self xs ys ?m ?n i j f) f) ?f0 = Some f'" "W f'"
      "\<forall>i j. 1 \<le> i \<longrightarrow> i < int (Suc (length xs)) \<longrightarrow> 1 \<le> j \<longrightarrow> j < int (Suc (length ys)) \<longrightarrow>
              Global_rec self xs ys f' i j" by blast
  have "Global_computeAlignmentMatrix self xs ys = Some f'"
    unfolding Global_computeAlignmentMatrix_def using f'(1) by (simp add: Let_def nm)
  moreover have "\<forall>i j. 1 \<le> i \<longrightarrow> i \<le> int (length xs) \<longrightarrow> 1 \<le> j \<longrightarrow> j \<le> int (length ys) \<longrightarrow>
            Global_rec self xs ys f' i j"
    using f'(3) by simp
  ultimately show ?thesis using f'(2) unfolding W_def by blast
qed


text \<open>
  Claim C2.  The affine-global fill does not raise, and in its result, for every
  \<open>j \<ge> 1\<close>, the GapInFirst score at row \<open>i = len(first)\<close> and column \<open>j\<close> is the maximum
  of the Match, GapInFirst and GapInSecond scores at \<open>(i, j - 1)\<close>, with no gap-open and
  no gap-extension cost added; symmetrically, for every \<open>i \<ge> 1\<close>, the GapInSecond score
  at column \<open>j = len(second)\<close> is the maximum of the three scores at \<open>(i - 1, j)\<close>.
\<close>

theorem Global_fill_trailing_gap_free:
  "\<exists>f. Global_computeAlignmentMatrix self xs ys = Some f
     \<and> (\<forall>j. 1 \<le> j \<longrightarrow> j \<le> int (length ys) \<longrightarrow>
           getScore f IX (int (length xs)) j \<noteq> None
           \<and> getScore f IX (int (length xs)) j = do {
                 prevF \<leftarrow> getScore f F (int (length xs)) (j - 1);
                 prevIx \<leftarrow> getScore f IX (int (length xs)) (j - 1);
                 prevIy \<leftarrow> getScore f IY (int (length xs)) (j - 1);
                 Some (max3 prevF prevIx prevIy) })
     \<and> (\<forall>i. 1 \<le> i \<longrightarrow> i \<le> int (length xs) \<longrightarrow>
           getScore f IY i (int (length ys)) \<noteq> None
           \<and> getScore f IY i (int (length ys)) = do {
                 prevF \<leftarrow> getScore f F (i - 1) (int (length ys));
                 prevIx \<leftarrow> getScore f IX (i - 1) (int (length ys));
                 prevIy \<leftarrow> getScore f IY (i - 1) (int (length ys));
                 Some (max3 prevF prevIx prevIy) })"
proof -
  let ?M = "int (length xs)" and ?N = "int (length ys)"
  from Global_fill[of self xs ys] obtain f where
    f: "Global_computeAlignmentMatrix self xs ys = Some f" and wf: "wf_matrix f"
    and shp: "shape f = (?M + 1, ?N + 1)" and bz: "boundary_zero f"
    and rec: "\<forall>i j. 1 \<le> i \<longrightarrow> i \<le> ?M \<longrightarrow> 1 \<le> j \<longrightarrow> j \<le> ?N \<longrightarrow> Global_rec self xs ys f i j"
    by blast
  have gs: "getScore f t i j = Some (cellS f t i j)" if "0 \<le> i" "i \<le> ?M" "0 \<le> j" "j \<le> ?N" for t i j
    using that shp by (intro getScore_in_grid[OF wf]) (simp add: in_grid_def)
  have zero: "cellS f t i j = 0" if "0 \<le> i" "i \<le> ?M" "0 \<le> j" "j \<le> ?N" "i = 0 \<or> j = 0" for t i j
  proof -
    have "in_grid f i j" using that shp by (simp add: in_grid_def)
    then show ?thesis using bz that(5) unfolding boundary_zero_def by blast
  qed
  have row: "getScore f IX ?M j \<noteq> None \<and> getScore f IX ?M j = do {
                 prevF \<leftarrow> getScore f F ?M (j - 1);
                 prevIx \<leftarrow> getScore f IX ?M (j - 1);
                 prevIy \<leftarrow> getScore f IY ?M (j - 1);
                 Some (max3 prevF prevIx prevIy) }" if j: "1 \<le> j" "j \<le> ?N" for j
  proof (cases "length xs = 0")
    case True
    then show ?thesis using j by (simp add: gs zero max3_def)
  next
    case False
    then have "1 \<le> ?M" by (cases xs) simp_all
    then have "Global_rec self xs ys f ?M j" using rec[rule_format, of ?M j] j by simp
    then have "cellS f IX ?M j = max3 (cellS f F ?M (j - 1)) (cellS f IX ?M (j - 1)) (cellS f IY ?M (j - 1))"
      by (simp add: Global_rec_def Global_gapfirst_ok_def shp Let_def)
    then show ?thesis using j by (simp add: gs)
  qed
  have col: "getScore f IY i ?N \<noteq> None \<and> getScore f IY i ?N = do {
                 prevF \<leftarrow> getScore f F (i - 1) ?N;
                 prevIx \<leftarrow> getScore f IX (i - 1) ?N;
                 prevIy \<leftarrow> getScore f IY (i - 1) ?N;
                 Some (max3 prevF prevIx prevIy) }" if i: "1 \<le> i" "i \<le> ?M" for i
  proof (cases "length ys = 0")
    case True
    then show ?thesis using i by (simp add: gs zero max3_def)
  next
    case False
    then have "1 \<le> ?N" by (cases ys) simp_all
    then have "Global_rec self xs ys f i ?N" using rec[rule_format, of i ?N] i by simp
    then have "cellS f IY i ?N = max3 (cellS f F (i - 1) ?N) (cellS f IX (i - 1) ?N) (cellS f IY (i - 1) ?N)"
      by (simp add: Global_rec_def Global_gapsecond_ok_def shp Let_def)
    then show ?thesis using i by (simp add: gs)
  qed
  show ?thesis using f row col by blast
qed

theorem Global_fill_trailing_gap_free_witness:
  "\<exists>f. Global_computeAlignmentMatrix (GlobalSequenceAligner_init (SimpleScoring 2 (-1) (-2) (-1)) False)
          [1] [1, 2] = Some f
     \<and> getScore f IX 1 2 \<noteq> None
     \<and> getScore f IX 1 2 = do {
          prevF \<leftarrow> getScore f F 1 1;
          prevIx \<leftarrow> getScore f IX 1 1;
          prevIy \<leftarrow> getScore f IY 1 1;
          Some (max3 prevF prevIx prevIy) }
     \<and> getScore f IY 1 2 \<noteq> None"
proof -
  from Global_fill_trailing_gap_free
         [of "GlobalSequenceAligner_init (SimpleScoring 2 (-1) (-2) (-1)) False" "[1]" "[1, 2]"]
  obtain f where f: "Global_computeAlignmentMatrix
        (GlobalSequenceAligner_init (SimpleScoring 2 (-1) (-2) (-1)) False) [1] [1, 2] = Some f"
    and row: "\<forall>j. 1 \<le> j \<longrightarrow> j \<le> int (length [1 :: int, 2]) \<longrightarrow>
           getScore f IX (int (length [1 :: int])) j \<noteq> None
           \<and> getScore f IX (int (length [1 :: int])) j = do {
                 prevF \<leftarrow> getScore f F (int (length [1 :: int])) (j - 1);
                 prevIx \<leftarrow> getScore f IX (int (length [1 :: int])) (j - 1);
                 prevIy \<leftarrow> getScore f IY (int (length [1 :: int])) (j - 1);
                 Some (max3 prevF prevIx prevIy) }"
    and col: "\<forall>i. 1 \<le> i \<longrightarrow> i \<le> int (length [1 :: int]) \<longrightarrow>
           getScore f IY i (int (length [1 :: int, 2])) \<noteq> None
           \<and> getScore f IY i (int (length [1 :: int, 2])) = do {
                 prevF \<leftarrow> getScore f F (i - 1) (int (length [1 :: int, 2]));
                 prevIx \<leftarrow> getScore f IX (i - 1) (int (length [1 :: int, 2]));
                 prevIy \<leftarrow> getScore f IY (i - 1) (int (length [1 :: int, 2]));
                 Some (max3 prevF prevIx prevIy) }"
    by blast
  have e: "int (length [1 :: int]) = 1" "int (length [1 :: int, 2]) = 2" "(2 :: int) - 1 = 1"
    by simp_all
  have r: "getScore f IX 1 2 \<noteq> None \<and> getScore f IX 1 2 = do {
          prevF \<leftarrow> getScore f F 1 1;
          prevIx \<leftarrow> getScore f IX 1 1;
          prevIy \<leftarrow> getScore f IY 1 1;
          Some (max3 prevF prevIx prevIy) }"
    by (rule row[rule_format, of 2, unfolded e]) simp_all
  have "getScore f IY 1 2 \<noteq> None \<and> getScore f IY 1 2 = do {
          prevF \<leftarrow> getScore f F (1 - 1) 2;
          prevIx \<leftarrow> getScore f IX (1 - 1) 2;
          prevIy \<leftarrow> getScore f IY (1 - 1) 2;
          Some (max3 prevF prevIx prevIy) }"
    by (rule col[rule_format, of 1, unfolded e]) simp_all
  then have c: "getScore f IY 1 2 \<noteq> None" by blast
  show ?thesis using f r c by blast
qed



section \<open>Affine-local fill: the recurrence of the filled matrix\<close>

text \<open>
  As for the global fill: the recurrence of one cell, read on the matrix, and the
  values that the three boundary phases leave in the first column, the first row and
  the corner.  \<open>Local_fill\<close> shows that the fill does not raise, that its result has
  these boundary values and that every cell with \<open>i, j \<ge> 1\<close> satisfies the recurrence.
\<close>

definition Local_match_ok ::
  "'a SequenceAligner_scheme \<Rightarrow> EncodedSequence \<Rightarrow> EncodedSequence \<Rightarrow> AlignmentMatrix \<Rightarrow> int \<Rightarrow> int \<Rightarrow> bool" where
  "Local_match_ok self xs ys f i j \<longleftrightarrow>
     (let pF = cellS f F (i - 1) (j - 1); pIx = cellS f IX (i - 1) (j - 1);
          pIy = cellS f IY (i - 1) (j - 1); mx = max3 pF pIx pIy
      in cellS f F i j = max 0 (mx + call (scoring self) (xs ! nat (i - 1)) (ys ! nat (j - 1)))
         \<and> cellD f F i j = (if mx > 0 then tied pF pIx pIy mx else take 1 (tied pF pIx pIy mx)))"

definition Local_gapfirst_ok ::
  "'a SequenceAligner_scheme \<Rightarrow> EncodedSequence \<Rightarrow> EncodedSequence \<Rightarrow> AlignmentMatrix \<Rightarrow> int \<Rightarrow> int \<Rightarrow> bool" where
  "Local_gapfirst_ok self xs ys f i j \<longleftrightarrow>
     (let b = ys ! nat (j - 1);
          pF = cellS f F i (j - 1) + gapStart (scoring self) b; pIx = cellS f IX i (j - 1);
          pIy = cellS f IY i (j - 1) + gapStart (scoring self) b
      in cellS f IX i j = max 0 (max3 pF pIx pIy + gapExtension (scoring self) b)
         \<and> cellD f IX i j = tied pF pIx pIy (max3 pF pIx pIy))"

definition Local_gapsecond_ok ::
  "'a SequenceAligner_scheme \<Rightarrow> EncodedSequence \<Rightarrow> EncodedSequence \<Rightarrow> AlignmentMatrix \<Rightarrow> int \<Rightarrow> int \<Rightarrow> bool" where
  "Local_gapsecond_ok self xs ys f i j \<longleftrightarrow>
     (let a = xs ! nat (i - 1);
          pF = cellS f F (i - 1) j + gapStart (scoring self) a;
          pIx = cellS f IX (i - 1) j + gapStart (scoring self) a; pIy = cellS f IY (i - 1) j
      in cellS f IY i j = max 0 (max3 pF pIx pIy + gapExtension (scoring self) a)
         \<and> cellD f IY i j = tied pF pIx pIy (max3 pF pIx pIy))"

definition Local_rec ::
  "'a SequenceAligner_scheme \<Rightarrow> EncodedSequence \<Rightarrow> EncodedSequence \<Rightarrow> AlignmentMatrix \<Rightarrow> int \<Rightarrow> int \<Rightarrow> bool" where
  "Local_rec self xs ys f i j \<longleftrightarrow>
     Local_match_ok self xs ys f i j \<and> Local_gapfirst_ok self xs ys f i j
     \<and> Local_gapsecond_ok self xs ys f i j"

lemma Local_cell_step:
  assumes wf: "wf_matrix f" and shp: "shape f = (m, n)"
    and lx: "int (length xs) = m - 1" and ly: "int (length ys) = n - 1"
    and ij: "1 \<le> i" "i < m" "1 \<le> j" "j < n"
  shows "\<exists>f'. Local_cell self xs ys i j f = Some f' \<and> same_except f' f i j
           \<and> Local_rec self xs ys f' i j"
proof -
  have g: "in_grid f i j" "in_grid f (i - 1) (j - 1)" "in_grid f i (j - 1)" "in_grid f (i - 1) j"
    using ij shp by (simp_all add: in_grid_def)
  have a: "py_nth xs (i - 1) = Some (xs ! nat (i - 1))"
    using ij lx by (intro py_nth_in_range) simp_all
  have b: "py_nth ys (j - 1) = Some (ys ! nat (j - 1))"
    using ij ly by (intro py_nth_in_range) simp_all
  note rw = getScore_in_grid setScore_in_grid setDirection_in_grid wf g a b
    cellS_upd_score cellD_upd_dir
  show ?thesis unfolding Local_cell_def using ij
    by (simp add: rw Let_def same_except_def Local_rec_def Local_match_ok_def
        Local_gapfirst_ok_def Local_gapsecond_ok_def)
qed

lemma Local_rec_frame:
  assumes se: "same_except f' f i j" and b: "before i' j' i j" and p: "1 \<le> i'" "1 \<le> j'"
  shows "Local_rec self xs ys f' i' j' = Local_rec self xs ys f i' j'"
proof -
  have c: "\<And>t. cellS f' t i' j' = cellS f t i' j'" "\<And>t. cellD f' t i' j' = cellD f t i' j'"
    "\<And>t. cellS f' t (i' - 1) (j' - 1) = cellS f t (i' - 1) (j' - 1)"
    "\<And>t. cellS f' t i' (j' - 1) = cellS f t i' (j' - 1)"
    "\<And>t. cellS f' t (i' - 1) j' = cellS f t (i' - 1) j'"
    using b p by (auto simp: before_def intro!: same_except_cells[OF se])
  show ?thesis
    by (simp add: Local_rec_def Local_match_ok_def Local_gapfirst_ok_def
        Local_gapsecond_ok_def c)
qed

definition col_val :: "'a SequenceAligner_scheme \<Rightarrow> MatrixType \<Rightarrow> int \<Rightarrow> int" where
  "col_val self t i =
     (case t of F \<Rightarrow> - sys_maxsize | IX \<Rightarrow> - sys_maxsize
      | IY \<Rightarrow> max 0 (gapScore self + i * gapExtensionScore self))"

definition row_val :: "'a SequenceAligner_scheme \<Rightarrow> MatrixType \<Rightarrow> int \<Rightarrow> int" where
  "row_val self t j =
     (case t of F \<Rightarrow> - sys_maxsize | IX \<Rightarrow> max 0 (gapScore self + j * gapExtensionScore self)
      | IY \<Rightarrow> - sys_maxsize)"

definition Local_boundary :: "'a SequenceAligner_scheme \<Rightarrow> AlignmentMatrix \<Rightarrow> bool" where
  "Local_boundary self f \<longleftrightarrow>
     (\<forall>t i. 1 \<le> i \<longrightarrow> i < fst (shape f) \<longrightarrow>
        cellS f t i 0 = col_val self t i \<and> cellD f t i 0 = (if t = IY then [IY] else []))
     \<and> (\<forall>t j. 1 \<le> j \<longrightarrow> j < snd (shape f) \<longrightarrow>
        cellS f t 0 j = row_val self t j \<and> cellD f t 0 j = (if t = IX then [IX] else []))
     \<and> cellS f F 0 0 = 0 \<and> cellS f IX 0 0 = - sys_maxsize \<and> cellS f IY 0 0 = - sys_maxsize
     \<and> (\<forall>t. cellD f t 0 0 = [])"

definition Local_col_body :: "'a SequenceAligner_scheme \<Rightarrow> int \<Rightarrow> AlignmentMatrix \<Rightarrow> AlignmentMatrix option" where
  "Local_col_body self i f = do {
            f \<leftarrow> setScore f F i 0 (- sys_maxsize);
            f \<leftarrow> setScore f IX i 0 (- sys_maxsize);
            f \<leftarrow> setScore f IY i 0 (max 0 (gapScore self + i * gapExtensionScore self));
            setDirection f IY i 0 [IY]
          }"

definition Local_row_body :: "'a SequenceAligner_scheme \<Rightarrow> int \<Rightarrow> AlignmentMatrix \<Rightarrow> AlignmentMatrix option" where
  "Local_row_body self i f = do {
            f \<leftarrow> setScore f F 0 i (- sys_maxsize);
            f \<leftarrow> setScore f IX 0 i (max 0 (gapScore self + i * gapExtensionScore self));
            f \<leftarrow> setScore f IY 0 i (- sys_maxsize);
            setDirection f IX 0 i [IX]
          }"

lemma Local_col_step:
  assumes wf: "wf_matrix f" and g: "in_grid f i 0"
  shows "\<exists>f'. Local_col_body self i f = Some f' \<and> same_except f' f i 0
           \<and> (\<forall>t. cellS f' t i 0 = col_val self t i
                  \<and> cellD f' t i 0 = (if t = IY then [IY] else cellD f t i 0))"
proof -
  have i: "0 \<le> i" using g by (simp add: in_grid_def)
  show ?thesis unfolding Local_col_body_def using i
    by (auto simp: setScore_in_grid setDirection_in_grid wf g cellS_upd_score cellD_upd_dir
        same_except_def col_val_def split: MatrixType.splits)
qed

lemma Local_row_step:
  assumes wf: "wf_matrix f" and g: "in_grid f 0 j"
  shows "\<exists>f'. Local_row_body self j f = Some f' \<and> same_except f' f 0 j
           \<and> (\<forall>t. cellS f' t 0 j = row_val self t j
                  \<and> cellD f' t 0 j = (if t = IX then [IX] else cellD f t 0 j))"
proof -
  have j: "0 \<le> j" using g by (simp add: in_grid_def)
  show ?thesis unfolding Local_row_body_def using j
    by (auto simp: setScore_in_grid setDirection_in_grid wf g cellS_upd_score cellD_upd_dir
        same_except_def row_val_def split: MatrixType.splits)
qed

definition after_cols :: "'a SequenceAligner_scheme \<Rightarrow> int \<Rightarrow> AlignmentMatrix \<Rightarrow> bool" where
  "after_cols self i f \<longleftrightarrow>
     wf_matrix f \<and>
     (\<forall>t a b. in_grid f a b \<longrightarrow>
        cellS f t a b = (if 1 \<le> a \<and> a < i \<and> b = 0 then col_val self t a else 0)
        \<and> cellD f t a b = (if 1 \<le> a \<and> a < i \<and> b = 0 \<and> t = IY then [IY] else []))"

definition after_rows :: "'a SequenceAligner_scheme \<Rightarrow> int \<Rightarrow> AlignmentMatrix \<Rightarrow> bool" where
  "after_rows self j f \<longleftrightarrow>
     wf_matrix f \<and>
     (\<forall>t a b. in_grid f a b \<longrightarrow>
        cellS f t a b = (if 1 \<le> a \<and> b = 0 then col_val self t a
                         else if a = 0 \<and> 1 \<le> b \<and> b < j then row_val self t b else 0)
        \<and> cellD f t a b = (if 1 \<le> a \<and> b = 0 \<and> t = IY then [IY]
                         else if a = 0 \<and> 1 \<le> b \<and> b < j \<and> t = IX then [IX] else []))"

lemma in_grid_same_except: "same_except f' f i j \<Longrightarrow> in_grid f' a b = in_grid f a b"
  by (simp add: same_except_def in_grid_def)

lemma col_phase:
  assumes m: "1 \<le> m" and n: "1 \<le> n"
  shows "\<exists>f1. for_loop (py_range 1 (nat m)) (Local_col_body self) (AlignmentMatrix_init (m, n)) = Some f1
           \<and> shape f1 = (m, n) \<and> after_cols self m f1"
proof -
  let ?f0 = "AlignmentMatrix_init (m, n)"
  have le: "1 \<le> nat m" using m by simp
  have "\<exists>f1. for_loop (py_range 1 (nat m)) (Local_col_body self) ?f0 = Some f1
           \<and> (shape f1 = (m, n) \<and> after_cols self (int (nat m)) f1)"
  proof (rule for_loop_range_rule[where P = "\<lambda>i f. shape f = (m, n) \<and> after_cols self i f", OF le])
    show "shape ?f0 = (m, n) \<and> after_cols self (int 1) ?f0"
      using m n by (simp add: after_cols_def wf_init in_grid_def cell_init)
  next
    fix i s assume i: "int 1 \<le> i" "i < int (nat m)" and P: "shape s = (m, n) \<and> after_cols self i s"
    have wf: "wf_matrix s" and shp: "shape s = (m, n)" using P by (simp_all add: after_cols_def)
    have g: "in_grid s i 0" using i m n shp by (simp add: in_grid_def)
    from Local_col_step[OF wf g, of self] obtain s' where
      s': "Local_col_body self i s = Some s'" "same_except s' s i 0"
        "\<forall>t. cellS s' t i 0 = col_val self t i
             \<and> cellD s' t i 0 = (if t = IY then [IY] else cellD s t i 0)" by blast
    have old: "\<And>t a b. in_grid s a b \<Longrightarrow>
        cellS s t a b = (if 1 \<le> a \<and> a < i \<and> b = 0 then col_val self t a else 0)
        \<and> cellD s t a b = (if 1 \<le> a \<and> a < i \<and> b = 0 \<and> t = IY then [IY] else [])"
      using P unfolding after_cols_def by blast
    have "after_cols self (i + 1) s'"
      unfolding after_cols_def
    proof (intro conjI allI impI)
      show "wf_matrix s'" using s'(2) by (simp add: same_except_def)
    next
      fix t a b assume ga: "in_grid s' a b"
      then have gs: "in_grid s a b" using in_grid_same_except[OF s'(2)] by simp
      then have nn: "0 \<le> a" "0 \<le> b" by (simp_all add: in_grid_def)
      show "cellS s' t a b = (if 1 \<le> a \<and> a < i + 1 \<and> b = 0 then col_val self t a else 0)"
      proof (cases "a = i \<and> b = 0")
        case True
        then show ?thesis using s'(3) i by simp
      next
        case False
        then have "cellS s' t a b = cellS s t a b"
          using same_except_cells(1)[OF s'(2) nn] by blast
        then show ?thesis using old[OF gs, of t] False by auto
      qed
      show "cellD s' t a b = (if 1 \<le> a \<and> a < i + 1 \<and> b = 0 \<and> t = IY then [IY] else [])"
      proof (cases "a = i \<and> b = 0")
        case True
        then show ?thesis using s'(3) i old[OF g, of t] by simp
      next
        case False
        then have "cellD s' t a b = cellD s t a b"
          using same_except_cells(2)[OF s'(2) nn] by blast
        then show ?thesis using old[OF gs, of t] False by auto
      qed
    qed
    moreover have "shape s' = (m, n)" using s'(2) shp by (simp add: same_except_def)
    ultimately show "\<exists>s'. Local_col_body self i s = Some s' \<and> (shape s' = (m, n) \<and> after_cols self (i + 1) s')"
      using s'(1) by blast
  qed
  then show ?thesis using m by simp
qed

lemma row_phase:
  assumes m: "1 \<le> m" and n: "1 \<le> n" and shp1: "shape f1 = (m, n)" and ac: "after_cols self m f1"
  shows "\<exists>f2. for_loop (py_range 1 (nat n)) (Local_row_body self) f1 = Some f2
           \<and> shape f2 = (m, n) \<and> after_rows self n f2"
proof -
  have le: "1 \<le> nat n" using n by simp
  have "\<exists>f2. for_loop (py_range 1 (nat n)) (Local_row_body self) f1 = Some f2
           \<and> (shape f2 = (m, n) \<and> after_rows self (int (nat n)) f2)"
  proof (rule for_loop_range_rule[where P = "\<lambda>j f. shape f = (m, n) \<and> after_rows self j f", OF le])
    show "shape f1 = (m, n) \<and> after_rows self (int 1) f1"
      using ac shp1 by (auto simp: after_rows_def after_cols_def in_grid_def)
  next
    fix j s assume j: "int 1 \<le> j" "j < int (nat n)" and P: "shape s = (m, n) \<and> after_rows self j s"
    have wf: "wf_matrix s" and shp: "shape s = (m, n)" using P by (simp_all add: after_rows_def)
    have g: "in_grid s 0 j" using j m n shp by (simp add: in_grid_def)
    from Local_row_step[OF wf g, of self] obtain s' where
      s': "Local_row_body self j s = Some s'" "same_except s' s 0 j"
        "\<forall>t. cellS s' t 0 j = row_val self t j
             \<and> cellD s' t 0 j = (if t = IX then [IX] else cellD s t 0 j)" by blast
    have old: "\<And>t a b. in_grid s a b \<Longrightarrow>
        cellS s t a b = (if 1 \<le> a \<and> b = 0 then col_val self t a
                         else if a = 0 \<and> 1 \<le> b \<and> b < j then row_val self t b else 0)
        \<and> cellD s t a b = (if 1 \<le> a \<and> b = 0 \<and> t = IY then [IY]
                         else if a = 0 \<and> 1 \<le> b \<and> b < j \<and> t = IX then [IX] else [])"
      using P unfolding after_rows_def by blast
    have "after_rows self (j + 1) s'"
      unfolding after_rows_def
    proof (intro conjI allI impI)
      show "wf_matrix s'" using s'(2) by (simp add: same_except_def)
    next
      fix t a b assume ga: "in_grid s' a b"
      then have gs: "in_grid s a b" using in_grid_same_except[OF s'(2)] by simp
      then have nn: "0 \<le> a" "0 \<le> b" by (simp_all add: in_grid_def)
      show "cellS s' t a b = (if 1 \<le> a \<and> b = 0 then col_val self t a
                         else if a = 0 \<and> 1 \<le> b \<and> b < j + 1 then row_val self t b else 0)"
      proof (cases "a = 0 \<and> b = j")
        case True
        then show ?thesis using s'(3) j by simp
      next
        case False
        then have "cellS s' t a b = cellS s t a b"
          using same_except_cells(1)[OF s'(2) nn] by blast
        then show ?thesis using old[OF gs, of t] False by auto
      qed
      show "cellD s' t a b = (if 1 \<le> a \<and> b = 0 \<and> t = IY then [IY]
                         else if a = 0 \<and> 1 \<le> b \<and> b < j + 1 \<and> t = IX then [IX] else [])"
      proof (cases "a = 0 \<and> b = j")
        case True
        then show ?thesis using s'(3) j old[OF g, of t] by simp
      next
        case False
        then have "cellD s' t a b = cellD s t a b"
          using same_except_cells(2)[OF s'(2) nn] by blast
        then show ?thesis using old[OF gs, of t] False by auto
      qed
    qed
    moreover have "shape s' = (m, n)" using s'(2) shp by (simp add: same_except_def)
    ultimately show "\<exists>s'. Local_row_body self j s = Some s' \<and> (shape s' = (m, n) \<and> after_rows self (j + 1) s')"
      using s'(1) by blast
  qed
  then show ?thesis using n by simp
qed

lemma Local_boundary_frame:
  assumes se: "same_except f' f i j" and ij: "1 \<le> i" "1 \<le> j" and lb: "Local_boundary self f"
  shows "Local_boundary self f'"
proof -
  have sh: "shape f' = shape f" using se by (simp add: same_except_def)
  have c: "\<And>t a. 0 \<le> a \<Longrightarrow> cellS f' t a 0 = cellS f t a 0 \<and> cellD f' t a 0 = cellD f t a 0"
    "\<And>t b. 0 \<le> b \<Longrightarrow> cellS f' t 0 b = cellS f t 0 b \<and> cellD f' t 0 b = cellD f t 0 b"
    using ij same_except_cells[OF se] by auto
  show ?thesis
    using lb c(1)[of 0] unfolding Local_boundary_def sh
    by (auto simp: c)
qed

lemma origin_phase:
  assumes m: "1 \<le> m" and n: "1 \<le> n" and shp: "shape f2 = (m, n)" and ar: "after_rows self n f2"
  shows "\<exists>g f3. setScore f2 IX 0 0 (- sys_maxsize) = Some g
           \<and> setScore g IY 0 0 (- sys_maxsize) = Some f3
           \<and> wf_matrix f3 \<and> shape f3 = (m, n) \<and> Local_boundary self f3"
proof -
  have wf: "wf_matrix f2" using ar by (simp add: after_rows_def)
  have g: "in_grid f2 0 0" using m n shp by (simp add: in_grid_def)
  have old: "\<And>t a b. in_grid f2 a b \<Longrightarrow>
        cellS f2 t a b = (if 1 \<le> a \<and> b = 0 then col_val self t a
                         else if a = 0 \<and> 1 \<le> b \<and> b < n then row_val self t b else 0)
        \<and> cellD f2 t a b = (if 1 \<le> a \<and> b = 0 \<and> t = IY then [IY]
                         else if a = 0 \<and> 1 \<le> b \<and> b < n \<and> t = IX then [IX] else [])"
    using ar unfolding after_rows_def by blast
  let ?f3 = "upd_score (upd_score f2 IX 0 0 (- sys_maxsize)) IY 0 0 (- sys_maxsize)"
  have eq: "setScore f2 IX 0 0 (- sys_maxsize) = Some (upd_score f2 IX 0 0 (- sys_maxsize))"
    "setScore (upd_score f2 IX 0 0 (- sys_maxsize)) IY 0 0 (- sys_maxsize) = Some ?f3"
    by (simp_all add: setScore_in_grid wf g)
  have cS: "\<And>t a b. 0 \<le> a \<Longrightarrow> 0 \<le> b \<Longrightarrow> cellS ?f3 t a b =
      (if a = 0 \<and> b = 0 \<and> (t = IX \<or> t = IY) then - sys_maxsize else cellS f2 t a b)"
    by (auto simp: cellS_upd_score wf g)
  have cD: "\<And>t a b. cellD ?f3 t a b = cellD f2 t a b" by simp
  have lb: "Local_boundary self ?f3"
    unfolding Local_boundary_def
  proof (intro conjI allI impI)
    fix t i assume i: "1 \<le> i" "i < fst (shape ?f3)"
    then have gi: "in_grid f2 i 0" using shp n by (simp add: in_grid_def)
    show "cellS ?f3 t i 0 = col_val self t i" using old[OF gi, of t] i by (simp add: cS)
    show "cellD ?f3 t i 0 = (if t = IY then [IY] else [])" using old[OF gi, of t] i by (simp add: cD)
  next
    fix t j assume j: "1 \<le> j" "j < snd (shape ?f3)"
    then have gj: "in_grid f2 0 j" using shp m by (simp add: in_grid_def)
    show "cellS ?f3 t 0 j = row_val self t j" using old[OF gj, of t] j shp by (simp add: cS)
    show "cellD ?f3 t 0 j = (if t = IX then [IX] else [])" using old[OF gj, of t] j shp by (simp add: cD)
  next
    show "cellS ?f3 F 0 0 = 0" using old[OF g, of F] by (simp add: cS)
    show "cellS ?f3 IX 0 0 = - sys_maxsize" by (simp add: cS)
    show "cellS ?f3 IY 0 0 = - sys_maxsize" by (simp add: cS)
  next
    fix t show "cellD ?f3 t 0 0 = []" using old[OF g, of t] by (simp add: cD)
  qed
  show ?thesis using eq lb wf shp by simp
qed

lemma Local_compute_unfold:
  "Local_computeAlignmentMatrix self xs ys = do {
     f \<leftarrow> for_loop (py_range 1 (nat (int (length xs) + 1))) (Local_col_body self)
            (AlignmentMatrix_init (int (length xs) + 1, int (length ys) + 1));
     f \<leftarrow> for_loop (py_range 1 (nat (int (length ys) + 1))) (Local_row_body self) f;
     f \<leftarrow> setScore f IX 0 0 (- sys_maxsize);
     f \<leftarrow> setScore f IY 0 0 (- sys_maxsize);
     for_loop (py_range 1 (nat (int (length xs) + 1))) (\<lambda>i f.
       for_loop (py_range 1 (nat (int (length ys) + 1))) (\<lambda>j f. Local_cell self xs ys i j f) f) f
   }"
proof -
  have c: "Local_col_body self = (\<lambda>i f. do {
            f \<leftarrow> setScore f F i 0 (- sys_maxsize);
            f \<leftarrow> setScore f IX i 0 (- sys_maxsize);
            f \<leftarrow> setScore f IY i 0 (max 0 (gapScore self + i * gapExtensionScore self));
            setDirection f IY i 0 [IY] })"
    by (intro ext) (simp add: Local_col_body_def)
  have r: "Local_row_body self = (\<lambda>i f. do {
            f \<leftarrow> setScore f F 0 i (- sys_maxsize);
            f \<leftarrow> setScore f IX 0 i (max 0 (gapScore self + i * gapExtensionScore self));
            f \<leftarrow> setScore f IY 0 i (- sys_maxsize);
            setDirection f IX 0 i [IX] })"
    by (intro ext) (simp add: Local_row_body_def)
  show ?thesis
    unfolding Local_computeAlignmentMatrix_def c r by (simp add: Let_def)
qed

lemma Local_fill:
  "\<exists>f. Local_computeAlignmentMatrix self xs ys = Some f \<and> wf_matrix f
       \<and> shape f = (int (length xs) + 1, int (length ys) + 1) \<and> Local_boundary self f
       \<and> (\<forall>i j. 1 \<le> i \<longrightarrow> i \<le> int (length xs) \<longrightarrow> 1 \<le> j \<longrightarrow> j \<le> int (length ys) \<longrightarrow>
            Local_rec self xs ys f i j)"
proof -
  let ?m = "int (length xs) + 1" and ?n = "int (length ys) + 1"
  have m: "1 \<le> ?m" and n: "1 \<le> ?n" by simp_all
  from col_phase[OF m n, of self] obtain f1 where
    f1: "for_loop (py_range 1 (nat ?m)) (Local_col_body self) (AlignmentMatrix_init (?m, ?n)) = Some f1"
      "shape f1 = (?m, ?n)" "after_cols self ?m f1" by blast
  from row_phase[OF m n f1(2,3)] obtain f2 where
    f2: "for_loop (py_range 1 (nat ?n)) (Local_row_body self) f1 = Some f2"
      "shape f2 = (?m, ?n)" "after_rows self ?n f2" by blast
  from origin_phase[OF m n f2(2,3)] obtain g f3 where
    g: "setScore f2 IX 0 0 (- sys_maxsize) = Some g" and
    f3: "setScore g IY 0 0 (- sys_maxsize) = Some f3"
      "wf_matrix f3" "shape f3 = (?m, ?n)" "Local_boundary self f3" by blast
  define W where "W f \<longleftrightarrow> wf_matrix f \<and> shape f = (?m, ?n) \<and> Local_boundary self f" for f
  have W3: "W f3" using f3 by (simp add: W_def)
  have nm: "nat ?m = Suc (length xs)" "nat ?n = Suc (length ys)" by simp_all
  have "\<exists>f'. for_loop (py_range 1 (Suc (length xs)))
          (\<lambda>i f. for_loop (py_range 1 (Suc (length ys)))
             (\<lambda>j f. Local_cell self xs ys i j f) f) f3 = Some f'
        \<and> W f' \<and> (\<forall>i j. 1 \<le> i \<longrightarrow> i < int (Suc (length xs)) \<longrightarrow> 1 \<le> j \<longrightarrow> j < int (Suc (length ys)) \<longrightarrow>
              Local_rec self xs ys f' i j)"
  proof (rule nested_loop_rule[where W = W and R = "\<lambda>i j f. Local_rec self xs ys f i j", OF W3])
    show "1 \<le> Suc (length xs)" "1 \<le> Suc (length ys)" by simp_all
  next
    fix i j f
    assume ij: "1 \<le> i" "i < int (Suc (length xs))" "1 \<le> j" "j < int (Suc (length ys))"
      and Wf: "W f"
      and prev: "\<forall>i' j'. 1 \<le> i' \<longrightarrow> 1 \<le> j' \<longrightarrow> j' < int (Suc (length ys)) \<longrightarrow> before i' j' i j \<longrightarrow>
                  Local_rec self xs ys f i' j'"
    have wf: "wf_matrix f" and shp: "shape f = (?m, ?n)" and lb: "Local_boundary self f"
      using Wf by (simp_all add: W_def)
    from Local_cell_step[OF wf shp, of xs ys i j self] ij
    obtain f' where f': "Local_cell self xs ys i j f = Some f'" "same_except f' f i j"
      "Local_rec self xs ys f' i j" by auto
    have "W f'" using f'(2) shp Local_boundary_frame[OF f'(2) ij(1) ij(3) lb]
      by (simp add: W_def same_except_def)
    moreover have "\<forall>i' j'. 1 \<le> i' \<longrightarrow> 1 \<le> j' \<longrightarrow> j' < int (Suc (length ys)) \<longrightarrow> before i' j' i j \<longrightarrow>
                  Local_rec self xs ys f' i' j'"
      using prev Local_rec_frame[OF f'(2)] by blast
    ultimately show "\<exists>f'. Local_cell self xs ys i j f = Some f' \<and> W f'
        \<and> Local_rec self xs ys f' i j
        \<and> (\<forall>i' j'. 1 \<le> i' \<longrightarrow> 1 \<le> j' \<longrightarrow> j' < int (Suc (length ys)) \<longrightarrow> before i' j' i j \<longrightarrow>
                  Local_rec self xs ys f' i' j')"
      using f'(1,3) by blast
  qed
  then obtain f' where f': "for_loop (py_range 1 (Suc (length xs)))
          (\<lambda>i f. for_loop (py_range 1 (Suc (length ys)))
             (\<lambda>j f. Local_cell self xs ys i j f) f) f3 = Some f'" "W f'"
      "\<forall>i j. 1 \<le> i \<longrightarrow> i < int (Suc (length xs)) \<longrightarrow> 1 \<le> j \<longrightarrow> j < int (Suc (length ys)) \<longrightarrow>
              Local_rec self xs ys f' i j" by blast
  have "Local_computeAlignmentMatrix self xs ys = Some f'"
    unfolding Local_compute_unfold using f1(1) f2(1) g f3(1) f'(1) by (simp add: nm)
  moreover have "\<forall>i j. 1 \<le> i \<longrightarrow> i \<le> int (length xs) \<longrightarrow> 1 \<le> j \<longrightarrow> j \<le> int (length ys) \<longrightarrow>
            Local_rec self xs ys f' i j"
    using f'(3) by simp
  ultimately show ?thesis using f'(2) unfolding W_def by blast
qed

lemma tied_nonempty: "tied a b c (max3 a b c) \<noteq> []"
  by (auto simp: tied_def max3_def max_def)

lemma take1_tied: "\<exists>d. take 1 (tied a b c (max3 a b c)) = [d]"
  using tied_nonempty[of a b c] by (cases "tied a b c (max3 a b c)") simp_all

lemma sys_maxsize_pos: "0 < sys_maxsize"
  by (simp add: sys_maxsize_def)

text \<open>
  Claim C4, as amended.  The affine-local fill does not raise, and in its result the
  Match-state score is never negative at every cell \<open>(i, j)\<close> with \<open>1 \<le> i \<le> m\<close> and
  \<open>1 \<le> j \<le> n\<close> and at the corner \<open>(0, 0)\<close>; the other cells of the first column and of
  the first row hold the sentinel \<open>-sys.maxsize\<close>.
\<close>

theorem Local_fill_match_floor:
  "\<exists>f. Local_computeAlignmentMatrix self xs ys = Some f
     \<and> (\<forall>i j. 1 \<le> i \<longrightarrow> i \<le> int (length xs) \<longrightarrow> 1 \<le> j \<longrightarrow> j \<le> int (length ys) \<longrightarrow>
           (\<exists>v. getScore f F i j = Some v \<and> 0 \<le> v))
     \<and> getScore f F 0 0 = Some 0
     \<and> (\<forall>i. 1 \<le> i \<longrightarrow> i \<le> int (length xs) \<longrightarrow> getScore f F i 0 = Some (- sys_maxsize))
     \<and> (\<forall>j. 1 \<le> j \<longrightarrow> j \<le> int (length ys) \<longrightarrow> getScore f F 0 j = Some (- sys_maxsize))"
proof -
  let ?M = "int (length xs)" and ?N = "int (length ys)"
  from Local_fill[of self xs ys] obtain f where
    f: "Local_computeAlignmentMatrix self xs ys = Some f" and wf: "wf_matrix f"
    and shp: "shape f = (?M + 1, ?N + 1)" and lb: "Local_boundary self f"
    and rec: "\<forall>i j. 1 \<le> i \<longrightarrow> i \<le> ?M \<longrightarrow> 1 \<le> j \<longrightarrow> j \<le> ?N \<longrightarrow> Local_rec self xs ys f i j"
    by blast
  have gs: "getScore f t i j = Some (cellS f t i j)" if "0 \<le> i" "i \<le> ?M" "0 \<le> j" "j \<le> ?N" for t i j
    using that shp by (intro getScore_in_grid[OF wf]) (simp add: in_grid_def)
  have inner: "\<exists>v. getScore f F i j = Some v \<and> 0 \<le> v"
    if "1 \<le> i" "i \<le> ?M" "1 \<le> j" "j \<le> ?N" for i j
  proof -
    have "Local_match_ok self xs ys f i j" using rec that by (simp add: Local_rec_def)
    then have "0 \<le> cellS f F i j" by (simp add: Local_match_ok_def Let_def)
    then show ?thesis using gs[of i j F] that by simp
  qed
  have origin: "getScore f F 0 0 = Some 0"
    using lb gs[of 0 0 F] by (simp add: Local_boundary_def)
  have col: "getScore f F i 0 = Some (- sys_maxsize)" if "1 \<le> i" "i \<le> ?M" for i
  proof -
    have "cellS f F i 0 = col_val self F i"
      using lb that shp unfolding Local_boundary_def by simp
    then show ?thesis using gs[of i 0 F] that by (simp add: col_val_def)
  qed
  have row: "getScore f F 0 j = Some (- sys_maxsize)" if "1 \<le> j" "j \<le> ?N" for j
  proof -
    have "cellS f F 0 j = row_val self F j"
      using lb that shp unfolding Local_boundary_def by simp
    then show ?thesis using gs[of 0 j F] that by (simp add: row_val_def)
  qed
  show ?thesis using f inner origin col row by blast
qed

theorem Local_fill_match_floor_witness:
  "\<exists>f. Local_computeAlignmentMatrix (LocalSequenceAligner_init (SimpleScoring 2 (-1) 0 0) None)
          [1, 3] [1, 1, 2] = Some f
     \<and> (\<exists>v. getScore f F 2 3 = Some v \<and> 0 \<le> v)
     \<and> getScore f F 0 0 = Some 0
     \<and> getScore f F 1 0 = Some (- sys_maxsize)
     \<and> getScore f F 0 3 = Some (- sys_maxsize)"
proof -
  let ?a = "LocalSequenceAligner_init (SimpleScoring 2 (-1) 0 0) None"
  from Local_fill_match_floor[of ?a "[1, 3]" "[1, 1, 2]"]
  obtain f where f: "Local_computeAlignmentMatrix ?a [1, 3] [1, 1, 2] = Some f"
    and inner: "\<forall>i j. 1 \<le> i \<longrightarrow> i \<le> int (length [1 :: int, 3]) \<longrightarrow> 1 \<le> j \<longrightarrow>
            j \<le> int (length [1 :: int, 1, 2]) \<longrightarrow> (\<exists>v. getScore f F i j = Some v \<and> 0 \<le> v)"
    and origin: "getScore f F 0 0 = Some 0"
    and col: "\<forall>i. 1 \<le> i \<longrightarrow> i \<le> int (length [1 :: int, 3]) \<longrightarrow> getScore f F i 0 = Some (- sys_maxsize)"
    and row: "\<forall>j. 1 \<le> j \<longrightarrow> j \<le> int (length [1 :: int, 1, 2]) \<longrightarrow> getScore f F 0 j = Some (- sys_maxsize)"
    by blast
  have "\<exists>v. getScore f F 2 3 = Some v \<and> 0 \<le> v" by (rule inner[rule_format]) simp_all
  moreover have "getScore f F 1 0 = Some (- sys_maxsize)" by (rule col[rule_format]) simp_all
  moreover have "getScore f F 0 3 = Some (- sys_maxsize)" by (rule row[rule_format]) simp_all
  ultimately show ?thesis using f origin by blast
qed

text \<open>
  The claim as stated, over all cells with \<open>0 \<le> i \<le> m\<close> and \<open>0 \<le> j \<le> n\<close>, fails: for
  the sequences \<open>[1]\<close> and \<open>[]\<close> the Match score at the cell \<open>(1, 0)\<close> is the sentinel.
\<close>

theorem Local_fill_boundary_match_negative:
  "(Local_computeAlignmentMatrix (LocalSequenceAligner_init (SimpleScoring 2 (-1) 0 0) None) [1] []
      \<bind> (\<lambda>f. getScore f F 1 0)) = Some (- 9223372036854775807)
   \<and> (- 9223372036854775807 :: int) < 0"
  by code_simp

text \<open>
  Claim C9, as amended.  In the result of the affine-local fill, every Match cell with
  \<open>i, j \<ge> 1\<close> holds \<open>max(0, best predecessor score + substitution score)\<close>.  The recorded
  predecessor list is cut to its first state exactly when the best predecessor score
  is not positive, and then it holds a single state; when the best predecessor score
  is positive, all tying states are recorded, whether or not the floor 0 was applied
  to the cell.
\<close>

theorem Local_fill_match_recurrence:
  "\<exists>f. Local_computeAlignmentMatrix self xs ys = Some f
     \<and> (\<forall>i j. 1 \<le> i \<longrightarrow> i \<le> int (length xs) \<longrightarrow> 1 \<le> j \<longrightarrow> j \<le> int (length ys) \<longrightarrow>
           (\<exists>prevF prevIx prevIy a b.
              getScore f F (i - 1) (j - 1) = Some prevF
              \<and> getScore f IX (i - 1) (j - 1) = Some prevIx
              \<and> getScore f IY (i - 1) (j - 1) = Some prevIy
              \<and> py_nth xs (i - 1) = Some a \<and> py_nth ys (j - 1) = Some b
              \<and> getScore f F i j
                  = Some (max 0 (max3 prevF prevIx prevIy + call (scoring self) a b))
              \<and> getDirection f F i j
                  = Some (if max3 prevF prevIx prevIy > 0
                          then tied prevF prevIx prevIy (max3 prevF prevIx prevIy)
                          else take 1 (tied prevF prevIx prevIy (max3 prevF prevIx prevIy)))
              \<and> (max3 prevF prevIx prevIy \<le> 0 \<longrightarrow> (\<exists>d. getDirection f F i j = Some [d]))))"
proof -
  let ?M = "int (length xs)" and ?N = "int (length ys)"
  from Local_fill[of self xs ys] obtain f where
    f: "Local_computeAlignmentMatrix self xs ys = Some f" and wf: "wf_matrix f"
    and shp: "shape f = (?M + 1, ?N + 1)"
    and rec: "\<forall>i j. 1 \<le> i \<longrightarrow> i \<le> ?M \<longrightarrow> 1 \<le> j \<longrightarrow> j \<le> ?N \<longrightarrow> Local_rec self xs ys f i j"
    by blast
  have gs: "getScore f t i j = Some (cellS f t i j)" if "0 \<le> i" "i \<le> ?M" "0 \<le> j" "j \<le> ?N" for t i j
    using that shp by (intro getScore_in_grid[OF wf]) (simp add: in_grid_def)
  have gd: "getDirection f t i j = Some (cellD f t i j)" if "0 \<le> i" "i \<le> ?M" "0 \<le> j" "j \<le> ?N" for t i j
    using that shp by (intro getDirection_in_grid[OF wf]) (simp add: in_grid_def)
  have cell: "\<exists>prevF prevIx prevIy a b.
              getScore f F (i - 1) (j - 1) = Some prevF
              \<and> getScore f IX (i - 1) (j - 1) = Some prevIx
              \<and> getScore f IY (i - 1) (j - 1) = Some prevIy
              \<and> py_nth xs (i - 1) = Some a \<and> py_nth ys (j - 1) = Some b
              \<and> getScore f F i j
                  = Some (max 0 (max3 prevF prevIx prevIy + call (scoring self) a b))
              \<and> getDirection f F i j
                  = Some (if max3 prevF prevIx prevIy > 0
                          then tied prevF prevIx prevIy (max3 prevF prevIx prevIy)
                          else take 1 (tied prevF prevIx prevIy (max3 prevF prevIx prevIy)))
              \<and> (max3 prevF prevIx prevIy \<le> 0 \<longrightarrow> (\<exists>d. getDirection f F i j = Some [d]))"
    if ij: "1 \<le> i" "i \<le> ?M" "1 \<le> j" "j \<le> ?N" for i j
  proof -
    let ?pF = "cellS f F (i - 1) (j - 1)" and ?pIx = "cellS f IX (i - 1) (j - 1)"
      and ?pIy = "cellS f IY (i - 1) (j - 1)"
    have ok: "Local_match_ok self xs ys f i j" using rec ij by (simp add: Local_rec_def)
    have a: "py_nth xs (i - 1) = Some (xs ! nat (i - 1))"
      using ij by (intro py_nth_in_range) simp_all
    have b: "py_nth ys (j - 1) = Some (ys ! nat (j - 1))"
      using ij by (intro py_nth_in_range) simp_all
    have p: "getScore f F (i - 1) (j - 1) = Some ?pF" "getScore f IX (i - 1) (j - 1) = Some ?pIx"
      "getScore f IY (i - 1) (j - 1) = Some ?pIy"
      using ij by (simp_all add: gs)
    have s: "getScore f F i j
        = Some (max 0 (max3 ?pF ?pIx ?pIy + call (scoring self) (xs ! nat (i - 1)) (ys ! nat (j - 1))))"
      using ok ij by (simp add: gs Local_match_ok_def Let_def)
    have d: "getDirection f F i j
        = Some (if max3 ?pF ?pIx ?pIy > 0 then tied ?pF ?pIx ?pIy (max3 ?pF ?pIx ?pIy)
                else take 1 (tied ?pF ?pIx ?pIy (max3 ?pF ?pIx ?pIy)))"
      using ok ij by (simp add: gd Local_match_ok_def Let_def)
    have one: "max3 ?pF ?pIx ?pIy \<le> 0 \<longrightarrow> (\<exists>d. getDirection f F i j = Some [d])"
      using d take1_tied[of ?pF ?pIx ?pIy] by auto
    show ?thesis using a b p s d one by blast
  qed
  show ?thesis using f cell by blast
qed

theorem Local_fill_match_recurrence_witness:
  "\<exists>f. Local_computeAlignmentMatrix (LocalSequenceAligner_init (SimpleScoring 2 (-5) 0 0) None)
          [1, 3] [1, 1, 2] = Some f
     \<and> (\<exists>prevF prevIx prevIy a b.
              getScore f F 1 2 = Some prevF
              \<and> getScore f IX 1 2 = Some prevIx
              \<and> getScore f IY 1 2 = Some prevIy
              \<and> py_nth [1, 3] 1 = Some a \<and> py_nth [1, 1, 2] 2 = Some b
              \<and> getScore f F 2 3
                  = Some (max 0 (max3 prevF prevIx prevIy
                                  + call (scoring (LocalSequenceAligner_init (SimpleScoring 2 (-5) 0 0) None)) a b))
              \<and> getDirection f F 2 3
                  = Some (if max3 prevF prevIx prevIy > 0
                          then tied prevF prevIx prevIy (max3 prevF prevIx prevIy)
                          else take 1 (tied prevF prevIx prevIy (max3 prevF prevIx prevIy)))
              \<and> (max3 prevF prevIx prevIy \<le> 0 \<longrightarrow> (\<exists>d. getDirection f F 2 3 = Some [d])))"
proof -
  let ?a = "LocalSequenceAligner_init (SimpleScoring 2 (-5) 0 0) None"
  have e: "(2 :: int) - 1 = 1" "(3 :: int) - 1 = 2" by simp_all
  from Local_fill_match_recurrence[of ?a "[1, 3]" "[1, 1, 2]"]
  obtain f where f: "Local_computeAlignmentMatrix ?a [1, 3] [1, 1, 2] = Some f"
    and cell: "\<forall>i j. 1 \<le> i \<longrightarrow> i \<le> int (length [1 :: int, 3]) \<longrightarrow> 1 \<le> j \<longrightarrow>
           j \<le> int (length [1 :: int, 1, 2]) \<longrightarrow>
           (\<exists>prevF prevIx prevIy a b.
              getScore f F (i - 1) (j - 1) = Some prevF
              \<and> getScore f IX (i - 1) (j - 1) = Some prevIx
              \<and> getScore f IY (i - 1) (j - 1) = Some prevIy
              \<and> py_nth [1, 3] (i - 1) = Some a \<and> py_nth [1, 1, 2] (j - 1) = Some b
              \<and> getScore f F i j
                  = Some (max 0 (max3 prevF prevIx prevIy + call (scoring ?a) a b))
              \<and> getDirection f F i j
                  = Some (if max3 prevF prevIx prevIy > 0
                          then tied prevF prevIx prevIy (max3 prevF prevIx prevIy)
                          else take 1 (tied prevF prevIx prevIy (max3 prevF prevIx prevIy)))
              \<and> (max3 prevF prevIx prevIy \<le> 0 \<longrightarrow> (\<exists>d. getDirection f F i j = Some [d])))"
    by blast
  have "\<exists>prevF prevIx prevIy a b.
              getScore f F 1 2 = Some prevF
              \<and> getScore f IX 1 2 = Some prevIx
              \<and> getScore f IY 1 2 = Some prevIy
              \<and> py_nth [1, 3] 1 = Some a \<and> py_nth [1, 1, 2] 2 = Some b
              \<and> getScore f F 2 3
                  = Some (max 0 (max3 prevF prevIx prevIy + call (scoring ?a) a b))
              \<and> getDirection f F 2 3
                  = Some (if max3 prevF prevIx prevIy > 0
                          then tied prevF prevIx prevIy (max3 prevF prevIx prevIy)
                          else take 1 (tied prevF prevIx prevIy (max3 prevF prevIx prevIy)))
              \<and> (max3 prevF prevIx prevIy \<le> 0 \<longrightarrow> (\<exists>d. getDirection f F 2 3 = Some [d]))"
    by (rule cell[rule_format, of 2 3, unfolded e]) simp_all
  then show ?thesis using f by blast
qed

text \<open>
  The claim as stated fails.  For the sequences \<open>[1, 3]\<close> and \<open>[1, 1, 2]\<close> (match 2,
  mismatch -5, no gap costs) the best predecessor of the Match cell \<open>(2, 3)\<close> scores 2,
  reached by Match and by GapInFirst; the substitution score -5 gives -3, so the floor
  is applied and the cell holds 0, and yet both tying states are recorded.
\<close>

theorem Local_fill_floor_keeps_ties:
  "(Local_computeAlignmentMatrix (LocalSequenceAligner_init (SimpleScoring 2 (-5) 0 0) None)
      [1, 3] [1, 1, 2]
      \<bind> (\<lambda>f. do {
            prevF \<leftarrow> getScore f F 1 2;
            prevIx \<leftarrow> getScore f IX 1 2;
            prevIy \<leftarrow> getScore f IY 1 2;
            s \<leftarrow> getScore f F 2 3;
            d \<leftarrow> getDirection f F 2 3;
            Some (max3 prevF prevIx prevIy + call (SimpleScoring 2 (-5) 0 0) 3 2, s, d) }))
    = Some (- 3, 0, [F, IX])"
  by code_simp

section \<open>Backtrace: what a descent appends\<close>

text \<open>
  A descent from a cell returns the accumulator as it received it and only appends to
  the list of alignments.  Every appended alignment is related to the accumulator by
  any relation \<open>Q\<close> that holds between an accumulator and its reversed copy and that
  is inherited backwards along a push.
\<close>

declare Local_backtraceFrom.simps [simp del] Global_backtraceFrom.simps [simp del] Strict_backtraceFrom.simps [simp del]

lemma for_loop_inv:
  assumes "for_loop xs body st = Some st'" and "I st"
    and "\<And>x s s'. x \<in> set xs \<Longrightarrow> I s \<Longrightarrow> body x s = Some s' \<Longrightarrow> I s'"
  shows "I st'"
  using assms
proof (induction xs arbitrary: st)
  case Nil
  then show ?case by simp
next
  case (Cons x xs)
  from Cons.prems(1) obtain s1 where s1: "body x st = Some s1" "for_loop xs body s1 = Some st'"
    by (auto split: option.splits)
  have "I s1" using Cons.prems(3)[of x st s1] Cons.prems(2) s1(1) by simp
  show ?case
  proof (rule Cons.IH[OF s1(2) \<open>I s1\<close>])
    fix y s s' assume "y \<in> set xs" "I s" "body y s = Some s'"
    then show "I s'" using Cons.prems(3)[of y s s'] by simp
  qed
qed

definition extends ::
  "(SequenceAlignment \<Rightarrow> SequenceAlignment \<Rightarrow> bool) \<Rightarrow> SequenceAlignment list \<Rightarrow> SequenceAlignment \<Rightarrow>
   SequenceAlignment list \<times> SequenceAlignment \<Rightarrow> bool" where
  "extends Q als al st \<longleftrightarrow> snd st = al \<and> (\<exists>new. fst st = als @ new \<and> (\<forall>r \<in> set new. Q al r))"

lemma extends_refl: "extends Q als al (als, al)"
  by (simp add: extends_def)

lemma extends_append: "Q al r \<Longrightarrow> extends Q als al (als @ [r], al)"
  by (simp add: extends_def)

lemma extends_trans:
  "extends Q als al (als1, al1) \<Longrightarrow> extends Q als1 al st \<Longrightarrow> extends Q als al st"
  by (auto simp: extends_def)

lemma push_rec_pop:
  assumes step: "\<And>r. Q' (push al x y sc) r \<Longrightarrow> Q al r"
    and rec: "\<And>st. R = Some st \<Longrightarrow> extends Q' als1 (push al x y sc) st"
    and run: "(R \<bind> (\<lambda>(alignments, alignment). pop alignment \<bind>
                 (\<lambda>(e, alignment). Some (alignments, alignment)))) = Some st'"
  shows "extends Q als1 al st'"
proof -
  from run obtain als3 al3 where r: "R = Some (als3, al3)"
    and p: "(pop al3 \<bind> (\<lambda>(e, alignment). Some (als3, alignment))) = Some st'"
    by (auto simp: bind_eq_Some_conv)
  from rec[OF r] have al3: "al3 = push al x y sc"
    and new: "\<exists>new. als3 = als1 @ new \<and> (\<forall>r \<in> set new. Q' (push al x y sc) r)"
    by (simp_all add: extends_def)
  from p al3 have st': "st' = (als3, al)" by (simp add: pop_push)
  show ?thesis using new step unfolding st' extends_def by auto
qed

lemma Local_backtraceFrom_extends:
  assumes base: "\<And>al. Q al (reversed al)"
    and step: "\<And>al a b s r. Q (push al a b s) r \<Longrightarrow> Q al r"
  shows "Local_backtraceFrom self xs ys f i j als al cur = Some st \<Longrightarrow> extends Q als al st"
proof (induction self xs ys f i j als al cur arbitrary: st rule: Local_backtraceFrom.induct)
  case (1 self xs ys f i j als al cur)
  note run = "1.prems"[unfolded Local_backtraceFrom.simps[of self xs ys f i j als al cur]]
  from run obtain s where s: "getScore f cur i j = Some s" by (auto simp: bind_eq_Some_conv)
  show ?case
  proof (cases "s = 0")
    case True
    then have "st = (als @ [reversed al], al)" using run s by simp
    then show ?thesis using extends_append[of Q al "reversed al" als] base by simp
  next
    case False
    from run s False obtain dirs a b where
      d: "getDirection f cur i j = Some dirs" and a: "py_nth xs (i - 1) = Some a"
      and b: "py_nth ys (j - 1) = Some b"
      by (auto simp: bind_eq_Some_conv)
    show ?thesis
    proof (cases cur)
      case F
      let ?body = "\<lambda>dir (alignments, alignment). do {
              p \<leftarrow> getScore f dir (i - 1) (j - 1);
              let alignment = push alignment a b (s - p);
              (alignments, alignment) \<leftarrow>
                Local_backtraceFrom self xs ys f (i - 1) (j - 1) alignments alignment dir;
              (e, alignment) \<leftarrow> pop alignment;
              Some (alignments, alignment) }"
      have loop: "for_loop dirs ?body (als, al) = Some st"
        using run s False d a b F by simp
      show ?thesis
      proof (rule for_loop_inv[OF loop, where I = "extends Q als al"])
        show "extends Q als al (als, al)" by (rule extends_refl)
      next
        fix dir s1 s2 assume dir: "dir \<in> set dirs" and I1: "extends Q als al s1"
          and run1: "?body dir s1 = Some s2"
        obtain als1 where s1: "s1 = (als1, al)" using I1 by (cases s1) (simp add: extends_def)
        from run1 s1 obtain p where p: "getScore f dir (i - 1) (j - 1) = Some p"
          by (auto simp: bind_eq_Some_conv)
        have "extends Q als1 al s2"
        proof (rule push_rec_pop[where x = a and y = b and sc = "s - p"])
          show "\<And>r. Q (push al a b (s - p)) r \<Longrightarrow> Q al r" by (rule step)
          show "\<And>st. Local_backtraceFrom self xs ys f (i - 1) (j - 1) als1 (push al a b (s - p)) dir = Some st
                 \<Longrightarrow> extends Q als1 (push al a b (s - p)) st"
            by (rule "1.IH"(1)[OF s False d s a b F dir _ p refl]) (simp add: s1)
          show "(Local_backtraceFrom self xs ys f (i - 1) (j - 1) als1 (push al a b (s - p)) dir
                  \<bind> (\<lambda>(alignments, alignment). pop alignment \<bind>
                       (\<lambda>(e, alignment). Some (alignments, alignment)))) = Some s2"
            using run1 s1 p by simp
        qed
        then show "extends Q als al s2" using I1 s1 extends_trans by blast
      qed
    next
      case IX
      let ?body = "\<lambda>dir (alignments, alignment). do {
              y \<leftarrow> getScore f dir i (j - 1);
              let alignment = push alignment (gap alignment) b (s - y);
              (alignments, alignment) \<leftarrow>
                Local_backtraceFrom self xs ys f i (j - 1) alignments alignment dir;
              (e, alignment) \<leftarrow> pop alignment;
              Some (alignments, alignment) }"
      have loop: "for_loop dirs ?body (als, al) = Some st"
        using run s False d a b IX by simp
      show ?thesis
      proof (rule for_loop_inv[OF loop, where I = "extends Q als al"])
        show "extends Q als al (als, al)" by (rule extends_refl)
      next
        fix dir s1 s2 assume dir: "dir \<in> set dirs" and I1: "extends Q als al s1"
          and run1: "?body dir s1 = Some s2"
        obtain als1 where s1: "s1 = (als1, al)" using I1 by (cases s1) (simp add: extends_def)
        from run1 s1 obtain p where p: "getScore f dir i (j - 1) = Some p"
          by (auto simp: bind_eq_Some_conv)
        have "extends Q als1 al s2"
        proof (rule push_rec_pop[where x = "(gap al)" and y = "b" and sc = "s - p"])
          show "\<And>r. Q (push al (gap al) b (s - p)) r \<Longrightarrow> Q al r" by (rule step)
          show "\<And>st. Local_backtraceFrom self xs ys f i (j - 1) als1 (push al (gap al) b (s - p)) dir = Some st
                 \<Longrightarrow> extends Q als1 (push al (gap al) b (s - p)) st"
            by (rule "1.IH"(2)[OF s False d s a b IX dir _ p refl]) (simp add: s1)
          show "(Local_backtraceFrom self xs ys f i (j - 1) als1 (push al (gap al) b (s - p)) dir
                  \<bind> (\<lambda>(alignments, alignment). pop alignment \<bind>
                       (\<lambda>(e, alignment). Some (alignments, alignment)))) = Some s2"
            using run1 s1 p by simp
        qed
        then show "extends Q als al s2" using I1 s1 extends_trans by blast
      qed
    next
      case IY
      let ?body = "\<lambda>dir (alignments, alignment). do {
              x \<leftarrow> getScore f dir (i - 1) j;
              let alignment = push alignment a (gap alignment) (s - x);
              (alignments, alignment) \<leftarrow>
                Local_backtraceFrom self xs ys f (i - 1) j alignments alignment dir;
              (e, alignment) \<leftarrow> pop alignment;
              Some (alignments, alignment) }"
      have loop: "for_loop dirs ?body (als, al) = Some st"
        using run s False d a b IY by simp
      show ?thesis
      proof (rule for_loop_inv[OF loop, where I = "extends Q als al"])
        show "extends Q als al (als, al)" by (rule extends_refl)
      next
        fix dir s1 s2 assume dir: "dir \<in> set dirs" and I1: "extends Q als al s1"
          and run1: "?body dir s1 = Some s2"
        obtain als1 where s1: "s1 = (als1, al)" using I1 by (cases s1) (simp add: extends_def)
        from run1 s1 obtain p where p: "getScore f dir (i - 1) j = Some p"
          by (auto simp: bind_eq_Some_conv)
        have "extends Q als1 al s2"
        proof (rule push_rec_pop[where x = "a" and y = "(gap al)" and sc = "s - p"])
          show "\<And>r. Q (push al a (gap al) (s - p)) r \<Longrightarrow> Q al r" by (rule step)
          show "\<And>st. Local_backtraceFrom self xs ys f (i - 1) j als1 (push al a (gap al) (s - p)) dir = Some st
                 \<Longrightarrow> extends Q als1 (push al a (gap al) (s - p)) st"
            by (rule "1.IH"(3)[OF s False d s a b IY dir _ p refl]) (simp add: s1)
          show "(Local_backtraceFrom self xs ys f (i - 1) j als1 (push al a (gap al) (s - p)) dir
                  \<bind> (\<lambda>(alignments, alignment). pop alignment \<bind>
                       (\<lambda>(e, alignment). Some (alignments, alignment)))) = Some s2"
            using run1 s1 p by simp
        qed
        then show "extends Q als al s2" using I1 s1 extends_trans by blast
      qed
    qed
  qed
qed

lemma skip_rec:
  assumes rec: "\<And>st. R = Some st \<Longrightarrow> extends Q als1 al st"
    and run: "(if c then R else Some (als1, al)) = Some st'"
  shows "extends Q als1 al st'"
  using assms by (cases c) (auto simp: extends_refl)

lemma Global_backtraceFrom_extends:
  assumes base: "\<And>al. Q al (reversed al)"
    and step: "\<And>al a b s r. Q (push al a b s) r \<Longrightarrow> Q al r"
  shows "Global_backtraceFrom self xs ys f i j als al cur = Some st \<Longrightarrow> extends Q als al st"
proof (induction self xs ys f i j als al cur arbitrary: st rule: Global_backtraceFrom.induct)
  case (1 self xs ys f i j als al cur)
  note run = "1.prems"[unfolded Global_backtraceFrom.simps[of self xs ys f i j als al cur]]
  show ?case
  proof (cases "i = 0 \<or> j = 0")
    case True
    then have "st = (if cur = F then als @ [reversed al] else als, al)" using run by auto
    then show ?thesis
      using extends_append[of Q al "reversed al" als] base extends_refl[of Q als al] by simp
  next
    case False
    obtain m n where shp: "shape f = (m, n)" by (cases "shape f") simp
    from run False shp obtain all_dirs c a b where
      d: "getDirection f cur i j = Some all_dirs" and c: "getScore f cur i j = Some c"
      and a: "py_nth xs (i - 1) = Some a" and b: "py_nth ys (j - 1) = Some b"
      by (auto simp: bind_eq_Some_conv Let_def)
    define dirs where "dirs = (if fastBacktrace self then take 1 all_dirs else all_dirs)"
    note ih = "1.IH"[OF False shp[symmetric] refl d dirs_def c a b]
    show ?thesis
    proof (cases cur)
      case F
      let ?body = "\<lambda>dir (alignments, alignment). do {
               p \<leftarrow> getScore f dir (i - 1) (j - 1);
               let alignment = push alignment a b (c - p);
               (alignments, alignment) \<leftarrow>
                 Global_backtraceFrom self xs ys f (i - 1) (j - 1) alignments alignment dir;
               (e, alignment) \<leftarrow> pop alignment;
               Some (alignments, alignment) }"
      have loop: "for_loop dirs ?body (als, al) = Some st"
        using run False shp d c a b F by (simp add: dirs_def Let_def)
      show ?thesis
      proof (rule for_loop_inv[OF loop, where I = "extends Q als al"])
        show "extends Q als al (als, al)" by (rule extends_refl)
      next
        fix dir s1 s2 assume dir: "dir \<in> set dirs" and I1: "extends Q als al s1"
          and run1: "?body dir s1 = Some s2"
        obtain als1 where s1: "s1 = (als1, al)" using I1 by (cases s1) (simp add: extends_def)
        from run1 s1 obtain p where p: "getScore f dir (i - 1) (j - 1) = Some p"
          by (auto simp: bind_eq_Some_conv)
        have "extends Q als1 al s2"
        proof (rule push_rec_pop[where x = a and y = b and sc = "c - p"])
          show "\<And>r. Q (push al a b (c - p)) r \<Longrightarrow> Q al r" by (rule step)
          show "\<And>st. Global_backtraceFrom self xs ys f (i - 1) (j - 1) als1 (push al a b (c - p)) dir = Some st
                 \<Longrightarrow> extends Q als1 (push al a b (c - p)) st"
            by (rule ih(1)[OF F dir _ p refl]) (simp add: s1)
          show "(Global_backtraceFrom self xs ys f (i - 1) (j - 1) als1 (push al a b (c - p)) dir
                  \<bind> (\<lambda>(alignments, alignment). pop alignment \<bind>
                       (\<lambda>(e, alignment). Some (alignments, alignment)))) = Some s2"
            using run1 s1 p by simp
        qed
        then show "extends Q als al s2" using I1 s1 extends_trans by blast
      qed
    next
      case IX
      show ?thesis
      proof (cases "i = m - 1")
        case True
        let ?body = "\<lambda>dir (alignments, alignment). do {
                 y \<leftarrow> getScore f dir i (j - 1);
                 if c = y then
                   Global_backtraceFrom self xs ys f i (j - 1) alignments alignment dir
                 else Some (alignments, alignment) }"
        have loop: "for_loop dirs ?body (als, al) = Some st"
          using run False shp d c a b IX True by (simp add: dirs_def Let_def)
        show ?thesis
        proof (rule for_loop_inv[OF loop, where I = "extends Q als al"])
          show "extends Q als al (als, al)" by (rule extends_refl)
        next
          fix dir s1 s2 assume dir: "dir \<in> set dirs" and I1: "extends Q als al s1"
            and run1: "?body dir s1 = Some s2"
          obtain als1 where s1: "s1 = (als1, al)" using I1 by (cases s1) (simp add: extends_def)
          from run1 s1 obtain p where p: "getScore f dir i (j - 1) = Some p"
            by (auto simp: bind_eq_Some_conv)
          have "extends Q als1 al s2"
          proof (cases "c = p")
            case True
            then have "Global_backtraceFrom self xs ys f i (j - 1) als1 al dir = Some s2"
              using run1 s1 p by simp
            then show ?thesis
              by (rule ih(2)[OF IX \<open>i = m - 1\<close> dir _ p True, rotated]) (simp add: s1)
          next
            case False
            then show ?thesis using run1 s1 p by (auto simp: extends_refl)
          qed
          then show "extends Q als al s2" using I1 s1 extends_trans by blast
        qed
      next
        case nt: False
        let ?body = "\<lambda>dir (alignments, alignment). do {
                 y \<leftarrow> getScore f dir i (j - 1);
                 let alignment = push alignment (gap alignment) b (c - y);
                 (alignments, alignment) \<leftarrow>
                   Global_backtraceFrom self xs ys f i (j - 1) alignments alignment dir;
                 (e, alignment) \<leftarrow> pop alignment;
                 Some (alignments, alignment) }"
        have loop: "for_loop dirs ?body (als, al) = Some st"
          using run False shp d c a b IX nt by (simp add: dirs_def Let_def)
        show ?thesis
        proof (rule for_loop_inv[OF loop, where I = "extends Q als al"])
          show "extends Q als al (als, al)" by (rule extends_refl)
        next
          fix dir s1 s2 assume dir: "dir \<in> set dirs" and I1: "extends Q als al s1"
            and run1: "?body dir s1 = Some s2"
          obtain als1 where s1: "s1 = (als1, al)" using I1 by (cases s1) (simp add: extends_def)
          from run1 s1 obtain p where p: "getScore f dir i (j - 1) = Some p"
            by (auto simp: bind_eq_Some_conv)
          have "extends Q als1 al s2"
          proof (rule push_rec_pop[where x = "gap al" and y = b and sc = "c - p"])
            show "\<And>r. Q (push al (gap al) b (c - p)) r \<Longrightarrow> Q al r" by (rule step)
            show "\<And>st. Global_backtraceFrom self xs ys f i (j - 1) als1 (push al (gap al) b (c - p)) dir = Some st
                   \<Longrightarrow> extends Q als1 (push al (gap al) b (c - p)) st"
              by (rule ih(3)[OF IX nt dir _ p refl]) (simp add: s1)
            show "(Global_backtraceFrom self xs ys f i (j - 1) als1 (push al (gap al) b (c - p)) dir
                    \<bind> (\<lambda>(alignments, alignment). pop alignment \<bind>
                         (\<lambda>(e, alignment). Some (alignments, alignment)))) = Some s2"
              using run1 s1 p by simp
          qed
          then show "extends Q als al s2" using I1 s1 extends_trans by blast
        qed
      qed
    next
      case IY
      show ?thesis
      proof (cases "j = n - 1")
        case True
        let ?body = "\<lambda>dir (alignments, alignment). do {
                 x \<leftarrow> getScore f dir (i - 1) j;
                 if c = x then
                   Global_backtraceFrom self xs ys f (i - 1) j alignments alignment dir
                 else Some (alignments, alignment) }"
        have loop: "for_loop dirs ?body (als, al) = Some st"
          using run False shp d c a b IY True by (simp add: dirs_def Let_def)
        show ?thesis
        proof (rule for_loop_inv[OF loop, where I = "extends Q als al"])
          show "extends Q als al (als, al)" by (rule extends_refl)
        next
          fix dir s1 s2 assume dir: "dir \<in> set dirs" and I1: "extends Q als al s1"
            and run1: "?body dir s1 = Some s2"
          obtain als1 where s1: "s1 = (als1, al)" using I1 by (cases s1) (simp add: extends_def)
          from run1 s1 obtain p where p: "getScore f dir (i - 1) j = Some p"
            by (auto simp: bind_eq_Some_conv)
          have "extends Q als1 al s2"
          proof (cases "c = p")
            case True
            then have "Global_backtraceFrom self xs ys f (i - 1) j als1 al dir = Some s2"
              using run1 s1 p by simp
            then show ?thesis
              by (rule ih(4)[OF IY \<open>j = n - 1\<close> dir _ p True, rotated]) (simp add: s1)
          next
            case False
            then show ?thesis using run1 s1 p by (auto simp: extends_refl)
          qed
          then show "extends Q als al s2" using I1 s1 extends_trans by blast
        qed
      next
        case nt: False
        let ?body = "\<lambda>dir (alignments, alignment). do {
                 x \<leftarrow> getScore f dir (i - 1) j;
                 let alignment = push alignment a (gap alignment) (c - x);
                 (alignments, alignment) \<leftarrow>
                   Global_backtraceFrom self xs ys f (i - 1) j alignments alignment dir;
                 (e, alignment) \<leftarrow> pop alignment;
                 Some (alignments, alignment) }"
        have loop: "for_loop dirs ?body (als, al) = Some st"
          using run False shp d c a b IY nt by (simp add: dirs_def Let_def)
        show ?thesis
        proof (rule for_loop_inv[OF loop, where I = "extends Q als al"])
          show "extends Q als al (als, al)" by (rule extends_refl)
        next
          fix dir s1 s2 assume dir: "dir \<in> set dirs" and I1: "extends Q als al s1"
            and run1: "?body dir s1 = Some s2"
          obtain als1 where s1: "s1 = (als1, al)" using I1 by (cases s1) (simp add: extends_def)
          from run1 s1 obtain p where p: "getScore f dir (i - 1) j = Some p"
            by (auto simp: bind_eq_Some_conv)
          have "extends Q als1 al s2"
          proof (rule push_rec_pop[where x = a and y = "gap al" and sc = "c - p"])
            show "\<And>r. Q (push al a (gap al) (c - p)) r \<Longrightarrow> Q al r" by (rule step)
            show "\<And>st. Global_backtraceFrom self xs ys f (i - 1) j als1 (push al a (gap al) (c - p)) dir = Some st
                   \<Longrightarrow> extends Q als1 (push al a (gap al) (c - p)) st"
              by (rule ih(5)[OF IY nt dir _ p refl]) (simp add: s1)
            show "(Global_backtraceFrom self xs ys f (i - 1) j als1 (push al a (gap al) (c - p)) dir
                    \<bind> (\<lambda>(alignments, alignment). pop alignment \<bind>
                         (\<lambda>(e, alignment). Some (alignments, alignment)))) = Some s2"
              using run1 s1 p by simp
          qed
          then show "extends Q als al s2" using I1 s1 extends_trans by blast
        qed
      qed
    qed
  qed
qed

section \<open>Affine-local backtrace: the threshold and the descents\<close>

text \<open>
  The accumulator's fields after a push, in a reversed copy and in the empty alignment.
\<close>

lemma push_fields [simp]:
  "first (push al a b s) = first al @ [a]"
  "second (push al a b s) = second al @ [b]"
  "scores (push al a b s) = scores al @ [s]"
  "score (push al a b s) = score al + s"
  "gap (push al a b s) = gap al"
  by (simp_all add: push_def Let_def seq_push_def)

lemma reversed_fields [simp]:
  "first (reversed al) = rev (first al)"
  "second (reversed al) = rev (second al)"
  "scores (reversed al) = scores al"
  "score (reversed al) = score al"
  "gap (reversed al) = gap al"
  by (simp_all add: reversed_def SequenceAlignment_init_def seq_reversed_def)

lemma emptyAlignment_fields [simp]:
  "first (emptyAlignment xs ys) = []"
  "second (emptyAlignment xs ys) = []"
  "scores (emptyAlignment xs ys) = []"
  "score (emptyAlignment xs ys) = 0"
  "gap (emptyAlignment xs ys) = GAP_CODE"
  by (simp_all add: emptyAlignment_def SequenceAlignment_init_def)

lemma Local_backtraceFrom_zero:
  "getScore f cur i j = Some 0 \<Longrightarrow>
   Local_backtraceFrom self xs ys f i j als al cur = Some (als @ [reversed al], al)"
  by (simp add: Local_backtraceFrom.simps[of self xs ys f i j als al cur])

lemma Local_backtraceFrom_longer:
  assumes "Local_backtraceFrom self xs ys f i j als al cur = Some st"
  shows "extends (\<lambda>al r. length (first al) \<le> length (first r)) als al st"
  using Local_backtraceFrom_extends[where Q = "\<lambda>al r. length (first al) \<le> length (first r)", OF _ _ assms]
  by simp

lemma Local_backtraceFrom_nonzero:
  assumes s: "getScore f cur i j = Some s" and nz: "s \<noteq> 0"
    and run0: "Local_backtraceFrom self xs ys f i j als al cur = Some st"
  shows "extends (\<lambda>al r. length (first al) < length (first r)) als al st"
proof -
  let ?Q = "\<lambda>al r. length (first al) < length (first r)"
  let ?Q' = "\<lambda>al r. length (first al) \<le> length (first r)"
  note run = run0[unfolded Local_backtraceFrom.simps[of self xs ys f i j als al cur]]
  from run s nz obtain dirs a b where
    d: "getDirection f cur i j = Some dirs" and a: "py_nth xs (i - 1) = Some a"
    and b: "py_nth ys (j - 1) = Some b"
    by (auto simp: bind_eq_Some_conv)
  show ?thesis
  proof (cases cur)
    case F
    let ?body = "\<lambda>dir (alignments, alignment). do {
            p \<leftarrow> getScore f dir (i - 1) (j - 1);
            let alignment = push alignment a b (s - p);
            (alignments, alignment) \<leftarrow>
              Local_backtraceFrom self xs ys f (i - 1) (j - 1) alignments alignment dir;
            (e, alignment) \<leftarrow> pop alignment;
            Some (alignments, alignment) }"
    have loop: "for_loop dirs ?body (als, al) = Some st"
      using run s nz d a b F by simp
    show ?thesis
    proof (rule for_loop_inv[OF loop, where I = "extends ?Q als al"])
      show "extends ?Q als al (als, al)" by (rule extends_refl)
    next
      fix dir s1 s2 assume dir: "dir \<in> set dirs" and I1: "extends ?Q als al s1"
        and run1: "?body dir s1 = Some s2"
      obtain als1 where s1: "s1 = (als1, al)" using I1 by (cases s1) (simp add: extends_def)
      from run1 s1 obtain p where p: "getScore f dir (i - 1) (j - 1) = Some p"
        by (auto simp: bind_eq_Some_conv)
      have "extends ?Q als1 al s2"
      proof (rule push_rec_pop[where Q' = ?Q' and x = "a" and y = "b" and sc = "s - p"])
        show "\<And>r. ?Q' (push al a b (s - p)) r \<Longrightarrow> ?Q al r" by simp
        show "\<And>st. Local_backtraceFrom self xs ys f (i - 1) (j - 1) als1 (push al a b (s - p)) dir = Some st
               \<Longrightarrow> extends ?Q' als1 (push al a b (s - p)) st"
          by (rule Local_backtraceFrom_longer)
        show "(Local_backtraceFrom self xs ys f (i - 1) (j - 1) als1 (push al a b (s - p)) dir
                \<bind> (\<lambda>(alignments, alignment). pop alignment \<bind>
                     (\<lambda>(e, alignment). Some (alignments, alignment)))) = Some s2"
          using run1 s1 p by simp
      qed
      then show "extends ?Q als al s2" using I1 s1 extends_trans by blast
    qed
  next
    case IX
    let ?body = "\<lambda>dir (alignments, alignment). do {
            y \<leftarrow> getScore f dir i (j - 1);
            let alignment = push alignment (gap alignment) b (s - y);
            (alignments, alignment) \<leftarrow>
              Local_backtraceFrom self xs ys f i (j - 1) alignments alignment dir;
            (e, alignment) \<leftarrow> pop alignment;
            Some (alignments, alignment) }"
    have loop: "for_loop dirs ?body (als, al) = Some st"
      using run s nz d a b IX by simp
    show ?thesis
    proof (rule for_loop_inv[OF loop, where I = "extends ?Q als al"])
      show "extends ?Q als al (als, al)" by (rule extends_refl)
    next
      fix dir s1 s2 assume dir: "dir \<in> set dirs" and I1: "extends ?Q als al s1"
        and run1: "?body dir s1 = Some s2"
      obtain als1 where s1: "s1 = (als1, al)" using I1 by (cases s1) (simp add: extends_def)
      from run1 s1 obtain p where p: "getScore f dir i (j - 1) = Some p"
        by (auto simp: bind_eq_Some_conv)
      have "extends ?Q als1 al s2"
      proof (rule push_rec_pop[where Q' = ?Q' and x = "gap al" and y = "b" and sc = "s - p"])
        show "\<And>r. ?Q' (push al (gap al) b (s - p)) r \<Longrightarrow> ?Q al r" by simp
        show "\<And>st. Local_backtraceFrom self xs ys f i (j - 1) als1 (push al (gap al) b (s - p)) dir = Some st
               \<Longrightarrow> extends ?Q' als1 (push al (gap al) b (s - p)) st"
          by (rule Local_backtraceFrom_longer)
        show "(Local_backtraceFrom self xs ys f i (j - 1) als1 (push al (gap al) b (s - p)) dir
                \<bind> (\<lambda>(alignments, alignment). pop alignment \<bind>
                     (\<lambda>(e, alignment). Some (alignments, alignment)))) = Some s2"
          using run1 s1 p by simp
      qed
      then show "extends ?Q als al s2" using I1 s1 extends_trans by blast
    qed
  next
    case IY
    let ?body = "\<lambda>dir (alignments, alignment). do {
            x \<leftarrow> getScore f dir (i - 1) j;
            let alignment = push alignment a (gap alignment) (s - x);
            (alignments, alignment) \<leftarrow>
              Local_backtraceFrom self xs ys f (i - 1) j alignments alignment dir;
            (e, alignment) \<leftarrow> pop alignment;
            Some (alignments, alignment) }"
    have loop: "for_loop dirs ?body (als, al) = Some st"
      using run s nz d a b IY by simp
    show ?thesis
    proof (rule for_loop_inv[OF loop, where I = "extends ?Q als al"])
      show "extends ?Q als al (als, al)" by (rule extends_refl)
    next
      fix dir s1 s2 assume dir: "dir \<in> set dirs" and I1: "extends ?Q als al s1"
        and run1: "?body dir s1 = Some s2"
      obtain als1 where s1: "s1 = (als1, al)" using I1 by (cases s1) (simp add: extends_def)
      from run1 s1 obtain p where p: "getScore f dir (i - 1) j = Some p"
        by (auto simp: bind_eq_Some_conv)
      have "extends ?Q als1 al s2"
      proof (rule push_rec_pop[where Q' = ?Q' and x = "a" and y = "gap al" and sc = "s - p"])
        show "\<And>r. ?Q' (push al a (gap al) (s - p)) r \<Longrightarrow> ?Q al r" by simp
        show "\<And>st. Local_backtraceFrom self xs ys f (i - 1) j als1 (push al a (gap al) (s - p)) dir = Some st
               \<Longrightarrow> extends ?Q' als1 (push al a (gap al) (s - p)) st"
          by (rule Local_backtraceFrom_longer)
        show "(Local_backtraceFrom self xs ys f (i - 1) j als1 (push al a (gap al) (s - p)) dir
                \<bind> (\<lambda>(alignments, alignment). pop alignment \<bind>
                     (\<lambda>(e, alignment). Some (alignments, alignment)))) = Some s2"
          using run1 s1 p by simp
      qed
      then show "extends ?Q als al s2" using I1 s1 extends_trans by blast
    qed
  qed
qed

text \<open>
  The two nested loops of the backtrace visit the cells in row-major order; the cells
  at which a descent starts are those whose Match score reaches the threshold.
\<close>

lemma for_loop_product:
  "for_loop xs (\<lambda>i. for_loop ys (body i)) st = for_loop (List.product xs ys) (\<lambda>(i, j). body i j) st"
proof (induction xs arbitrary: st)
  case Nil
  then show ?case by simp
next
  case (Cons x xs)
  have inner: "for_loop (map (Pair x) ys) (\<lambda>(i, j). body i j) s = for_loop ys (body x) s" for s
    by (induction ys arbitrary: s) (auto split: option.splits)
  show ?case by (simp add: for_loop_append inner Cons.IH split: option.splits)
qed

lemma for_loop_guard:
  assumes "\<And>x s. x \<in> set xs \<Longrightarrow> body x s = (if P x then body' x s else Some s)"
  shows "for_loop xs body st = for_loop (filter P xs) body' st"
  using assms by (induction xs arbitrary: st) (auto split: option.splits)

definition Local_start_cells :: "AlignmentMatrix \<Rightarrow> int \<Rightarrow> (int \<times> int) list" where
  "Local_start_cells f t =
     filter (\<lambda>(i, j). case getScore f F i j of Some s \<Rightarrow> t \<le> s | None \<Rightarrow> False)
       (List.product (py_range 0 (nat (fst (shape f)))) (py_range 0 (nat (snd (shape f)))))"

definition Local_descents ::
  "LocalSequenceAligner \<Rightarrow> EncodedSequence \<Rightarrow> EncodedSequence \<Rightarrow> AlignmentMatrix \<Rightarrow>
   (int \<times> int) list \<Rightarrow> (SequenceAlignment list \<times> SequenceAlignment) option" where
  "Local_descents self xs ys f cells =
     for_loop cells (\<lambda>(i, j) (als, al). Local_backtraceFrom self xs ys f i j als al F)
       ([], emptyAlignment xs ys)"

lemma in_py_range: "i \<in> set (py_range a b) \<longleftrightarrow> int a \<le> i \<and> i < int b"
proof
  assume "i \<in> set (py_range a b)"
  then show "int a \<le> i \<and> i < int b" by (auto simp: py_range_def)
next
  assume "int a \<le> i \<and> i < int b"
  then have "nat i \<in> {a..<b}" "i = int (nat i)" by auto
  then show "i \<in> set (py_range a b)" unfolding py_range_def set_map set_upt by (rule image_eqI[rotated])
qed

lemma Local_backtrace_cells:
  assumes wf: "wf_matrix f"
  shows "Local_backtrace self xs ys f = do {
           t \<leftarrow> (case minScore self of None \<Rightarrow> Local_bestScore f | Some s \<Rightarrow> Some s);
           (als, al) \<leftarrow> Local_descents self xs ys f (Local_start_cells f t);
           Some als }"
proof -
  obtain m n where shp: "shape f = (m, n)" by (cases "shape f") simp
  have loop: "for_loop (py_range 0 (nat m)) (\<lambda>i.
         for_loop (py_range 0 (nat n)) (\<lambda>j (alignments, alignment). do {
           s \<leftarrow> getScore f F i j;
           if s \<ge> t then
             Local_backtraceFrom self xs ys f i j alignments alignment F
           else Some (alignments, alignment)
         })) st
       = for_loop (Local_start_cells f t)
           (\<lambda>(i, j) (als, al). Local_backtraceFrom self xs ys f i j als al F) st" for t st
    unfolding for_loop_product Local_start_cells_def shp fst_conv snd_conv
  proof (rule for_loop_guard)
    fix x :: "int \<times> int" and s :: "SequenceAlignment list \<times> SequenceAlignment"
    obtain i j where x: "x = (i, j)" by (cases x)
    obtain als al where s: "s = (als, al)" by (cases s)
    assume "x \<in> set (List.product (py_range 0 (nat m)) (py_range 0 (nat n)))"
    then have "in_grid f i j" using x shp by (auto simp: in_py_range in_grid_def split: if_splits)
    then have g: "getScore f F i j = Some (cellS f F i j)" by (rule getScore_in_grid[OF wf])
    show "(case x of (i, j) \<Rightarrow> \<lambda>(alignments, alignment). do {
              s \<leftarrow> getScore f F i j;
              if s \<ge> t then Local_backtraceFrom self xs ys f i j alignments alignment F
              else Some (alignments, alignment) }) s
          = (if (case x of (i, j) \<Rightarrow> case getScore f F i j of Some s \<Rightarrow> t \<le> s | None \<Rightarrow> False)
             then (case x of (i, j) \<Rightarrow> \<lambda>(als, al). Local_backtraceFrom self xs ys f i j als al F) s
             else Some s)"
      by (simp add: x s g)
  qed
  show ?thesis
    unfolding Local_backtrace_def Local_descents_def shp
    by (simp add: loop)
qed

lemma Local_start_cells_iff:
  assumes wf: "wf_matrix f"
  shows "(i, j) \<in> set (Local_start_cells f t) \<longleftrightarrow>
         0 \<le> i \<and> i < fst (shape f) \<and> 0 \<le> j \<and> j < snd (shape f) \<and>
         (\<exists>s. getScore f F i j = Some s \<and> t \<le> s)"
  by (auto simp: Local_start_cells_def in_py_range split: option.splits)

lemma Local_backtrace_empty:
  assumes wf: "wf_matrix f"
    and t: "(case minScore self of None \<Rightarrow> Local_bestScore f | Some s \<Rightarrow> Some s) = Some t"
    and lt: "\<And>i j s. in_grid f i j \<Longrightarrow> getScore f F i j = Some s \<Longrightarrow> s < t"
  shows "Local_backtrace self xs ys f = Some []"
proof -
  have "Local_start_cells f t = []"
  proof (rule ccontr)
    assume "Local_start_cells f t \<noteq> []"
    then obtain i j where "(i, j) \<in> set (Local_start_cells f t)"
      by (cases "Local_start_cells f t") auto
    then obtain s where "in_grid f i j" "getScore f F i j = Some s" "t \<le> s"
      unfolding Local_start_cells_iff[OF wf] by (auto simp: in_grid_def)
    then show False using lt[of i j s] by simp
  qed
  then show ?thesis
    unfolding Local_backtrace_cells[OF wf] t by (simp add: Local_descents_def)
qed

lemma py_max_Max: "xs \<noteq> [] \<Longrightarrow> py_max xs = Some (Max (set xs))"
  by (cases xs) (simp_all add: py_max_def Max.set_eq_fold[symmetric])

lemma those_map: "(\<And>x. x \<in> set xs \<Longrightarrow> g x = Some (h x)) \<Longrightarrow> those (map g xs) = Some (map h xs)"
  by (induction xs) auto

lemma rows_max:
  assumes ne: "rows \<noteq> []" and rne: "\<And>r. r \<in> set rows \<Longrightarrow> r \<noteq> []"
  shows "\<exists>v. (those (map py_max rows) \<bind> py_max) = Some v
           \<and> (\<forall>r \<in> set rows. \<forall>x \<in> set r. x \<le> v) \<and> (\<exists>r \<in> set rows. v \<in> set r)"
proof -
  let ?ms = "map (\<lambda>r. Max (set r)) rows"
  have t: "those (map py_max rows) = Some ?ms"
    by (rule those_map) (simp add: py_max_Max rne)
  have mne: "?ms \<noteq> []" using ne by simp
  have v: "py_max ?ms = Some (Max (set ?ms))" by (rule py_max_Max[OF mne])
  have ub: "x \<le> Max (set ?ms)" if "r \<in> set rows" "x \<in> set r" for r x
  proof -
    have "x \<le> Max (set r)" using that by simp
    also have "Max (set r) \<le> Max (set ?ms)" using that by (intro Max_ge) auto
    finally show ?thesis .
  qed
  have "Max (set ?ms) \<in> set ?ms" using mne by (intro Max_in) auto
  then obtain r where r: "r \<in> set rows" "Max (set ?ms) = Max (set r)" by auto
  have "Max (set r) \<in> set r" using rne[OF r(1)] by (intro Max_in) auto
  then have att: "\<exists>r \<in> set rows. Max (set ?ms) \<in> set r" using r by auto
  show ?thesis using t v ub att by (intro exI[of _ "Max (set ?ms)"]) auto
qed

lemma AlignmentMatrix_max_wf:
  assumes wf: "wf_matrix f" and m: "0 < fst (shape f)" and n: "0 < snd (shape f)"
  shows "\<exists>v. AlignmentMatrix_max f = Some v
           \<and> (\<forall>t i j. in_grid f i j \<longrightarrow> cellS f t i j \<le> v)
           \<and> (\<exists>t i j. in_grid f i j \<and> cellS f t i j = v)"
proof -
  have len: "length (matrix f t) = nat (fst (shape f))" for t using wf by (simp add: wf_matrix_def)
  have rlen: "length (matrix f t ! k) = nat (snd (shape f))" if "k < nat (fst (shape f))" for t k
    using wf that by (simp add: wf_matrix_def)
  have per: "\<exists>v. (those (map py_max (matrix f t)) \<bind> py_max) = Some v
           \<and> (\<forall>i j. in_grid f i j \<longrightarrow> cellS f t i j \<le> v)
           \<and> (\<exists>i j. in_grid f i j \<and> cellS f t i j = v)" for t
  proof -
    have ne: "matrix f t \<noteq> []" using len[of t] m by auto
    have rne: "r \<noteq> []" if "r \<in> set (matrix f t)" for r
    proof -
      from that obtain k where "k < length (matrix f t)" "r = matrix f t ! k"
        by (auto simp: in_set_conv_nth)
      then show ?thesis using rlen[of k t] len[of t] n by auto
    qed
    from rows_max[OF ne rne] obtain v where
      v: "(those (map py_max (matrix f t)) \<bind> py_max) = Some v"
      and ub: "\<forall>r \<in> set (matrix f t). \<forall>x \<in> set r. x \<le> v"
      and att: "\<exists>r \<in> set (matrix f t). v \<in> set r" by blast
    have "cellS f t i j \<le> v" if "in_grid f i j" for i j
    proof -
      have i: "nat i < length (matrix f t)" using that len[of t] by (simp add: in_grid_def)
      have j: "nat j < length (matrix f t ! nat i)"
        using that rlen[of "nat i" t] i len[of t] by (simp add: in_grid_def)
      have "matrix f t ! nat i \<in> set (matrix f t)" using i by simp
      moreover have "cellS f t i j \<in> set (matrix f t ! nat i)" using j by (simp add: cellS_def)
      ultimately show ?thesis using ub by blast
    qed
    moreover have "\<exists>i j. in_grid f i j \<and> cellS f t i j = v"
    proof -
      from att obtain k l where k: "k < length (matrix f t)"
        and l: "l < length (matrix f t ! k)" and e: "matrix f t ! k ! l = v"
        by (auto simp: in_set_conv_nth)
      have "in_grid f (int k) (int l)"
        using k l len[of t] rlen[of k t] by (auto simp: in_grid_def)
      moreover have "cellS f t (int k) (int l) = v" using e by (simp add: cellS_def)
      ultimately show ?thesis by blast
    qed
    ultimately show ?thesis using v by blast
  qed
  from per[of F] obtain vF where vF: "(those (map py_max (matrix f F)) \<bind> py_max) = Some vF"
    "\<forall>i j. in_grid f i j \<longrightarrow> cellS f F i j \<le> vF" "\<exists>i j. in_grid f i j \<and> cellS f F i j = vF"
    by blast
  from per[of IX] obtain vX where vX: "(those (map py_max (matrix f IX)) \<bind> py_max) = Some vX"
    "\<forall>i j. in_grid f i j \<longrightarrow> cellS f IX i j \<le> vX" "\<exists>i j. in_grid f i j \<and> cellS f IX i j = vX"
    by blast
  from per[of IY] obtain vY where vY: "(those (map py_max (matrix f IY)) \<bind> py_max) = Some vY"
    "\<forall>i j. in_grid f i j \<longrightarrow> cellS f IY i j \<le> vY" "\<exists>i j. in_grid f i j \<and> cellS f IY i j = vY"
    by blast
  let ?v = "max (max vF vX) vY"
  have "py_max [vF, vX, vY] = Some ?v" by (simp add: py_max_def max.commute)
  then have mx: "AlignmentMatrix_max f = Some ?v"
    by (simp add: AlignmentMatrix_max_def MatrixType_all_def vF(1) vX(1) vY(1))
  have ub: "cellS f t i j \<le> ?v" if "in_grid f i j" for t i j
    using vF(2) vX(2) vY(2) that by (cases t) (auto simp: le_max_iff_disj)
  have att: "\<exists>t i j. in_grid f i j \<and> cellS f t i j = ?v"
  proof -
    have "?v = vF \<or> ?v = vX \<or> ?v = vY" by (auto simp: max_def)
    then show ?thesis using vF(3) vX(3) vY(3) by metis
  qed
  show ?thesis using mx ub att by blast
qed

text \<open>
  Claim C8.  On the matrix filled by the affine-local engine: the best score is the
  maximum over all cells and all three states; the backtrace is the sequence of
  descents, in row-major order, from exactly the cells whose Match score is greater
  than or equal to the threshold (the caller's minimum score, or the best score when
  there is none); a descent at a cell whose score is 0 appends the reversed
  accumulator and returns; a descent at a cell whose score is not 0 appends only
  alignments that are longer than the accumulator, so nothing is appended for that
  cell itself; and when the threshold is above every Match score of the grid the
  backtrace returns the empty list.
\<close>

theorem Local_backtrace_threshold_descents:
  "\<exists>f. Local_computeAlignmentMatrix self xs ys = Some f
     \<and> (\<exists>v. Local_bestScore f = Some v
          \<and> (\<forall>t i j s. 0 \<le> i \<longrightarrow> i \<le> int (length xs) \<longrightarrow> 0 \<le> j \<longrightarrow> j \<le> int (length ys) \<longrightarrow>
                 getScore f t i j = Some s \<longrightarrow> s \<le> v)
          \<and> (\<exists>t i j. 0 \<le> i \<and> i \<le> int (length xs) \<and> 0 \<le> j \<and> j \<le> int (length ys)
                 \<and> getScore f t i j = Some v))
     \<and> Local_backtrace self xs ys f = do {
           t \<leftarrow> (case minScore self of None \<Rightarrow> Local_bestScore f | Some s \<Rightarrow> Some s);
           (als, al) \<leftarrow> Local_descents self xs ys f (Local_start_cells f t);
           Some als }
     \<and> (\<forall>t i j. (i, j) \<in> set (Local_start_cells f t) \<longleftrightarrow>
            0 \<le> i \<and> i \<le> int (length xs) \<and> 0 \<le> j \<and> j \<le> int (length ys)
            \<and> (\<exists>s. getScore f F i j = Some s \<and> t \<le> s))
     \<and> (\<forall>cur i j als al. getScore f cur i j = Some 0 \<longrightarrow>
            Local_backtraceFrom self xs ys f i j als al cur = Some (als @ [reversed al], al))
     \<and> (\<forall>cur i j als al s st. getScore f cur i j = Some s \<longrightarrow> s \<noteq> 0 \<longrightarrow>
            Local_backtraceFrom self xs ys f i j als al cur = Some st \<longrightarrow>
            snd st = al \<and> (\<exists>new. fst st = als @ new
                              \<and> (\<forall>r \<in> set new. length (first al) < length (first r))))
     \<and> (\<forall>t. (case minScore self of None \<Rightarrow> Local_bestScore f | Some s \<Rightarrow> Some s) = Some t \<longrightarrow>
            (\<forall>i j s. 0 \<le> i \<longrightarrow> i \<le> int (length xs) \<longrightarrow> 0 \<le> j \<longrightarrow> j \<le> int (length ys) \<longrightarrow>
                 getScore f F i j = Some s \<longrightarrow> s < t) \<longrightarrow>
            Local_backtrace self xs ys f = Some [])"
proof -
  let ?M = "int (length xs)" and ?N = "int (length ys)"
  from Local_fill[of self xs ys] obtain f where
    f: "Local_computeAlignmentMatrix self xs ys = Some f" and wf: "wf_matrix f"
    and shp: "shape f = (?M + 1, ?N + 1)"
    by blast
  have grid: "in_grid f i j \<longleftrightarrow> 0 \<le> i \<and> i \<le> ?M \<and> 0 \<le> j \<and> j \<le> ?N" for i j
    by (auto simp: in_grid_def shp)
  have gs: "getScore f t i j = Some (cellS f t i j)" if "in_grid f i j" for t i j
    by (rule getScore_in_grid[OF wf that])
  from AlignmentMatrix_max_wf[OF wf] shp obtain v where
    v: "AlignmentMatrix_max f = Some v"
    and ub: "\<forall>t i j. in_grid f i j \<longrightarrow> cellS f t i j \<le> v"
    and att: "\<exists>t i j. in_grid f i j \<and> cellS f t i j = v" by auto
  have p1: "\<exists>v. Local_bestScore f = Some v
          \<and> (\<forall>t i j s. 0 \<le> i \<longrightarrow> i \<le> ?M \<longrightarrow> 0 \<le> j \<longrightarrow> j \<le> ?N \<longrightarrow>
                 getScore f t i j = Some s \<longrightarrow> s \<le> v)
          \<and> (\<exists>t i j. 0 \<le> i \<and> i \<le> ?M \<and> 0 \<le> j \<and> j \<le> ?N \<and> getScore f t i j = Some v)"
  proof (intro exI[of _ v] conjI allI impI)
    show "Local_bestScore f = Some v" using v by (simp add: Local_bestScore_def)
  next
    fix t i j s assume "0 \<le> i" "i \<le> ?M" "0 \<le> j" "j \<le> ?N" "getScore f t i j = Some s"
    then have "in_grid f i j" "s = cellS f t i j" using gs[of i j t] by (simp_all add: grid)
    then show "s \<le> v" using ub by simp
  next
    from att obtain t i j where "in_grid f i j" "cellS f t i j = v" by blast
    then have "0 \<le> i \<and> i \<le> ?M \<and> 0 \<le> j \<and> j \<le> ?N \<and> getScore f t i j = Some v"
      using gs[of i j t] by (simp add: grid)
    then show "\<exists>t i j. 0 \<le> i \<and> i \<le> ?M \<and> 0 \<le> j \<and> j \<le> ?N \<and> getScore f t i j = Some v"
      by blast
  qed
  have p2: "Local_backtrace self xs ys f = do {
           t \<leftarrow> (case minScore self of None \<Rightarrow> Local_bestScore f | Some s \<Rightarrow> Some s);
           (als, al) \<leftarrow> Local_descents self xs ys f (Local_start_cells f t);
           Some als }"
    by (rule Local_backtrace_cells[OF wf])
  have p3: "\<forall>t i j. (i, j) \<in> set (Local_start_cells f t) \<longleftrightarrow>
            0 \<le> i \<and> i \<le> ?M \<and> 0 \<le> j \<and> j \<le> ?N \<and> (\<exists>s. getScore f F i j = Some s \<and> t \<le> s)"
    unfolding Local_start_cells_iff[OF wf] shp by auto
  have p4: "\<forall>cur i j als al. getScore f cur i j = Some 0 \<longrightarrow>
            Local_backtraceFrom self xs ys f i j als al cur = Some (als @ [reversed al], al)"
    by (simp add: Local_backtraceFrom_zero)
  have p5: "\<forall>cur i j als al s st. getScore f cur i j = Some s \<longrightarrow> s \<noteq> 0 \<longrightarrow>
            Local_backtraceFrom self xs ys f i j als al cur = Some st \<longrightarrow>
            snd st = al \<and> (\<exists>new. fst st = als @ new
                              \<and> (\<forall>r \<in> set new. length (first al) < length (first r)))"
    using Local_backtraceFrom_nonzero[of f _ _ _ _ self xs ys] unfolding extends_def by blast
  have p6: "\<forall>t. (case minScore self of None \<Rightarrow> Local_bestScore f | Some s \<Rightarrow> Some s) = Some t \<longrightarrow>
            (\<forall>i j s. 0 \<le> i \<longrightarrow> i \<le> ?M \<longrightarrow> 0 \<le> j \<longrightarrow> j \<le> ?N \<longrightarrow>
                 getScore f F i j = Some s \<longrightarrow> s < t) \<longrightarrow>
            Local_backtrace self xs ys f = Some []"
  proof (intro allI impI)
    fix t assume t: "(case minScore self of None \<Rightarrow> Local_bestScore f | Some s \<Rightarrow> Some s) = Some t"
      and lt: "\<forall>i j s. 0 \<le> i \<longrightarrow> i \<le> ?M \<longrightarrow> 0 \<le> j \<longrightarrow> j \<le> ?N \<longrightarrow> getScore f F i j = Some s \<longrightarrow> s < t"
    show "Local_backtrace self xs ys f = Some []"
    proof (rule Local_backtrace_empty[OF wf t])
      fix i j s assume "in_grid f i j" "getScore f F i j = Some s"
      then show "s < t" using lt unfolding grid by blast
    qed
  qed
  show ?thesis
    by (rule exI[of _ f]) (intro conjI f p1 p2 p3 p4 p5 p6)
qed

theorem Local_backtrace_threshold_descents_witness:
  "(\<exists>f. Local_computeAlignmentMatrix (LocalSequenceAligner_init (SimpleScoring 2 (-1) 0 0) None)
           [1] [1] = Some f
      \<and> (\<exists>v. Local_bestScore f = Some v \<and> 2 \<le> v)
      \<and> Local_backtraceFrom (LocalSequenceAligner_init (SimpleScoring 2 (-1) 0 0) None) [1] [1] f
           0 0 [] (push (emptyAlignment [1] [1]) 1 1 2) F
         = Some ([reversed (push (emptyAlignment [1] [1]) 1 1 2)], push (emptyAlignment [1] [1]) 1 1 2)
      \<and> (\<exists>r. Local_backtraceFrom (LocalSequenceAligner_init (SimpleScoring 2 (-1) 0 0) None)
                [1] [1] f 1 1 [] (emptyAlignment [1] [1]) F
              = Some ([r], emptyAlignment [1] [1])
            \<and> length (first (emptyAlignment [1] [1])) < length (first r)))
   \<and> (\<exists>f. Local_computeAlignmentMatrix
             (LocalSequenceAligner_init (SimpleScoring 2 (-1) 0 0) (Some 3)) [1] [1] = Some f
        \<and> Local_backtrace (LocalSequenceAligner_init (SimpleScoring 2 (-1) 0 0) (Some 3))
             [1] [1] f = Some [])"
proof -
  let ?a = "LocalSequenceAligner_init (SimpleScoring 2 (-1) 0 0) None"
  let ?b = "LocalSequenceAligner_init (SimpleScoring 2 (-1) 0 0) (Some 3)"
  let ?e = "emptyAlignment [1] [1]"
  from Local_backtrace_threshold_descents[of ?a "[1]" "[1]"]
  obtain f v where f: "Local_computeAlignmentMatrix ?a [1] [1] = Some f"
    and bs: "Local_bestScore f = Some v"
    and ub: "\<forall>t i j s. 0 \<le> i \<longrightarrow> i \<le> int (length [1 :: int]) \<longrightarrow> 0 \<le> j \<longrightarrow>
               j \<le> int (length [1 :: int]) \<longrightarrow> getScore f t i j = Some s \<longrightarrow> s \<le> v"
    and zero: "\<forall>cur i j als al. getScore f cur i j = Some 0 \<longrightarrow>
            Local_backtraceFrom ?a [1] [1] f i j als al cur = Some (als @ [reversed al], al)"
    and nz: "\<forall>cur i j als al s st. getScore f cur i j = Some s \<longrightarrow> s \<noteq> 0 \<longrightarrow>
            Local_backtraceFrom ?a [1] [1] f i j als al cur = Some st \<longrightarrow>
            snd st = al \<and> (\<exists>new. fst st = als @ new
                              \<and> (\<forall>r \<in> set new. length (first al) < length (first r)))"
    by (elim exE conjE) blast
  have "(Local_computeAlignmentMatrix ?a [1] [1] \<bind> (\<lambda>f. getScore f F 1 1)) = Some 2"
    by code_simp
  then have g11: "getScore f F 1 1 = Some 2" using f by simp
  have "(Local_computeAlignmentMatrix ?a [1] [1] \<bind> (\<lambda>f. getScore f F 0 0)) = Some 0"
    by code_simp
  then have g00: "getScore f F 0 0 = Some 0" using f by simp
  have "(Local_computeAlignmentMatrix ?a [1] [1]
           \<bind> (\<lambda>f. Local_backtraceFrom ?a [1] [1] f 1 1 [] ?e F))
        = Some ([reversed (push ?e 1 1 2)], ?e)"
    by code_simp
  then have bt: "Local_backtraceFrom ?a [1] [1] f 1 1 [] ?e F = Some ([reversed (push ?e 1 1 2)], ?e)"
    using f by simp
  have c1: "2 \<le> v" by (rule ub[rule_format, OF _ _ _ _ g11]) simp_all
  have c2: "Local_backtraceFrom ?a [1] [1] f 0 0 [] (push ?e 1 1 2) F
         = Some ([reversed (push ?e 1 1 2)], push ?e 1 1 2)"
    using zero[rule_format, OF g00, of "[]" "push ?e 1 1 2"] by simp
  have "snd ([reversed (push ?e 1 1 2)], ?e) = ?e
          \<and> (\<exists>new. fst ([reversed (push ?e 1 1 2)], ?e) = [] @ new
                \<and> (\<forall>r \<in> set new. length (first ?e) < length (first r)))"
    by (rule nz[rule_format, OF g11 _ bt]) simp
  then have c3: "length (first ?e) < length (first (reversed (push ?e 1 1 2)))" by simp
  from Local_backtrace_threshold_descents[of ?b "[1]" "[1]"]
  obtain f' where f': "Local_computeAlignmentMatrix ?b [1] [1] = Some f'"
    and empty: "\<forall>t. (case minScore ?b of None \<Rightarrow> Local_bestScore f' | Some s \<Rightarrow> Some s) = Some t \<longrightarrow>
            (\<forall>i j s. 0 \<le> i \<longrightarrow> i \<le> int (length [1 :: int]) \<longrightarrow> 0 \<le> j \<longrightarrow>
                 j \<le> int (length [1 :: int]) \<longrightarrow> getScore f' F i j = Some s \<longrightarrow> s < t) \<longrightarrow>
            Local_backtrace ?b [1] [1] f' = Some []"
    by (elim exE conjE) blast
  have "(Local_computeAlignmentMatrix ?b [1] [1]
          \<bind> (\<lambda>f. Some (getScore f F 0 0, getScore f F 0 1, getScore f F 1 0, getScore f F 1 1)))
        = Some (Some 0, Some (- 9223372036854775807), Some (- 9223372036854775807), Some 2)"
    by code_simp
  then have cells: "getScore f' F 0 0 = Some 0" "getScore f' F 0 1 = Some (- 9223372036854775807)"
    "getScore f' F 1 0 = Some (- 9223372036854775807)" "getScore f' F 1 1 = Some 2"
    using f' by simp_all
  have thr: "(case minScore ?b of None \<Rightarrow> Local_bestScore f' | Some s \<Rightarrow> Some s) = Some 3"
    by (simp add: LocalSequenceAligner_init_def)
  have below: "\<forall>i j s. 0 \<le> i \<longrightarrow> i \<le> int (length [1 :: int]) \<longrightarrow> 0 \<le> j \<longrightarrow>
                 j \<le> int (length [1 :: int]) \<longrightarrow> getScore f' F i j = Some s \<longrightarrow> s < 3"
  proof (intro allI impI)
    fix i j s :: int
    assume "0 \<le> i" "i \<le> int (length [1 :: int])" "0 \<le> j" "j \<le> int (length [1 :: int])"
      and g: "getScore f' F i j = Some s"
    then have "(i = 0 \<or> i = 1) \<and> (j = 0 \<or> j = 1)" by auto
    then show "s < 3" using g cells by auto
  qed
  have c4: "Local_backtrace ?b [1] [1] f' = Some []"
    using empty thr below by blast
  show ?thesis using f bs c1 c2 bt c3 f' c4 by blast
qed

section \<open>Linear-gap global alignment: the filled matrix\<close>

text \<open>
  The linear-gap fill writes \<open>i * gapScore\<close> down the first column and \<open>j * gapScore\<close>
  along the first row; every other Match cell holds the maximum of the diagonal, the
  gap-in-first and the gap-in-second candidates.
\<close>

definition Strict_rec ::
  "'a SequenceAligner_scheme \<Rightarrow> EncodedSequence \<Rightarrow> EncodedSequence \<Rightarrow> AlignmentMatrix \<Rightarrow> int \<Rightarrow> int \<Rightarrow> bool" where
  "Strict_rec self xs ys f i j \<longleftrightarrow>
     cellS f F i j =
       max3 (cellS f F (i - 1) (j - 1) + call (scoring self) (xs ! nat (i - 1)) (ys ! nat (j - 1)))
            (cellS f F i (j - 1) + gapScore self)
            (cellS f F (i - 1) j + gapScore self)"

definition Strict_edge :: "'a SequenceAligner_scheme \<Rightarrow> AlignmentMatrix \<Rightarrow> bool" where
  "Strict_edge self f \<longleftrightarrow>
     (\<forall>i. 0 \<le> i \<and> i < fst (shape f) \<longrightarrow> cellS f F i 0 = i * gapScore self) \<and>
     (\<forall>j. 0 \<le> j \<and> j < snd (shape f) \<longrightarrow> cellS f F 0 j = j * gapScore self)"

lemma Strict_col_phase:
  assumes m: "1 \<le> m" and n: "1 \<le> n"
  shows "\<exists>f1. for_loop (py_range 1 (nat m)) (\<lambda>i f. do {
            x \<leftarrow> getScore f F (i - 1) 0;
            setScore f F i 0 (x + gapScore self)
          }) (AlignmentMatrix_init (m, n)) = Some f1
        \<and> wf_matrix f1 \<and> shape f1 = (m, n)
        \<and> (\<forall>a b. in_grid f1 a b \<longrightarrow>
              cellS f1 F a b = (if b = 0 then a * gapScore self else 0))"
proof -
  let ?f0 = "AlignmentMatrix_init (m, n)"
  let ?body = "\<lambda>i f. do { x \<leftarrow> getScore f F (i - 1) 0; setScore f F i 0 (x + gapScore self) }"
  let ?P = "\<lambda>i f. wf_matrix f \<and> shape f = (m, n)
        \<and> (\<forall>a b. in_grid f a b \<longrightarrow>
              cellS f F a b = (if b = 0 \<and> a < i then a * gapScore self else 0))"
  have le: "1 \<le> nat m" using m by simp
  have "\<exists>f1. for_loop (py_range 1 (nat m)) ?body ?f0 = Some f1 \<and> ?P (int (nat m)) f1"
  proof (rule for_loop_range_rule[where P = ?P, OF le])
    show "?P (int 1) ?f0"
      using m n by (auto simp: wf_init in_grid_def cell_init)
  next
    fix i s assume i: "int 1 \<le> i" "i < int (nat m)" and P: "?P i s"
    have wf: "wf_matrix s" and shp: "shape s = (m, n)" using P by simp_all
    have old: "\<And>a b. in_grid s a b \<Longrightarrow>
        cellS s F a b = (if b = 0 \<and> a < i then a * gapScore self else 0)" using P by blast
    have g: "in_grid s i 0" and g1: "in_grid s (i - 1) 0" using i m n shp by (simp_all add: in_grid_def)
    have x: "cellS s F (i - 1) 0 = (i - 1) * gapScore self" using old[OF g1] by simp
    have run: "?body i s = Some (upd_score s F i 0 (i * gapScore self))"
      by (simp add: getScore_in_grid[OF wf g1] setScore_in_grid[OF wf g] x algebra_simps)
    have "?P (i + 1) (upd_score s F i 0 (i * gapScore self))"
    proof (intro conjI allI impI)
      show "wf_matrix (upd_score s F i 0 (i * gapScore self))" using wf by simp
      show "shape (upd_score s F i 0 (i * gapScore self)) = (m, n)" using shp by simp
    next
      fix a b assume "in_grid (upd_score s F i 0 (i * gapScore self)) a b"
      then have ga: "in_grid s a b" by simp
      then have nn: "0 \<le> a" "0 \<le> b" by (simp_all add: in_grid_def)
      show "cellS (upd_score s F i 0 (i * gapScore self)) F a b
            = (if b = 0 \<and> a < i + 1 then a * gapScore self else 0)"
        using old[OF ga] by (auto simp: cellS_upd_score[OF wf g nn])
    qed
    then show "\<exists>s'. ?body i s = Some s' \<and> ?P (i + 1) s'" using run by blast
  qed
  then obtain f1 where f1: "for_loop (py_range 1 (nat m)) ?body ?f0 = Some f1" "?P (int (nat m)) f1"
    by blast
  have "\<forall>a b. in_grid f1 a b \<longrightarrow> cellS f1 F a b = (if b = 0 then a * gapScore self else 0)"
    using f1(2) m by (auto simp: in_grid_def)
  then show ?thesis using f1 by blast
qed

lemma Strict_row_phase:
  assumes m: "1 \<le> m" and n: "1 \<le> n"
    and wf1: "wf_matrix f1" and shp1: "shape f1 = (m, n)"
    and c1: "\<forall>a b. in_grid f1 a b \<longrightarrow> cellS f1 F a b = (if b = 0 then a * gapScore self else 0)"
  shows "\<exists>f2. for_loop (py_range 1 (nat n)) (\<lambda>j f. do {
            y \<leftarrow> getScore f F 0 (j - 1);
            setScore f F 0 j (y + gapScore self)
          }) f1 = Some f2
        \<and> wf_matrix f2 \<and> shape f2 = (m, n) \<and> Strict_edge self f2"
proof -
  let ?body = "\<lambda>j f. do { y \<leftarrow> getScore f F 0 (j - 1); setScore f F 0 j (y + gapScore self) }"
  let ?P = "\<lambda>j f. wf_matrix f \<and> shape f = (m, n)
        \<and> (\<forall>a b. in_grid f a b \<longrightarrow>
              cellS f F a b = (if b = 0 then a * gapScore self
                               else if a = 0 \<and> b < j then b * gapScore self else 0))"
  have le: "1 \<le> nat n" using n by simp
  have "\<exists>f2. for_loop (py_range 1 (nat n)) ?body f1 = Some f2 \<and> ?P (int (nat n)) f2"
  proof (rule for_loop_range_rule[where P = ?P, OF le])
    show "?P (int 1) f1"
      using wf1 shp1 c1 by (auto simp: in_grid_def)
  next
    fix j s assume j: "int 1 \<le> j" "j < int (nat n)" and P: "?P j s"
    have wf: "wf_matrix s" and shp: "shape s = (m, n)" using P by simp_all
    have old: "\<And>a b. in_grid s a b \<Longrightarrow>
        cellS s F a b = (if b = 0 then a * gapScore self
                               else if a = 0 \<and> b < j then b * gapScore self else 0)" using P by blast
    have g: "in_grid s 0 j" and g1: "in_grid s 0 (j - 1)" using j m n shp by (simp_all add: in_grid_def)
    have y: "cellS s F 0 (j - 1) = (j - 1) * gapScore self" using old[OF g1] j by auto
    have run: "?body j s = Some (upd_score s F 0 j (j * gapScore self))"
      by (simp add: getScore_in_grid[OF wf g1] setScore_in_grid[OF wf g] y algebra_simps)
    have "?P (j + 1) (upd_score s F 0 j (j * gapScore self))"
    proof (intro conjI allI impI)
      show "wf_matrix (upd_score s F 0 j (j * gapScore self))" using wf by simp
      show "shape (upd_score s F 0 j (j * gapScore self)) = (m, n)" using shp by simp
    next
      fix a b assume "in_grid (upd_score s F 0 j (j * gapScore self)) a b"
      then have ga: "in_grid s a b" by simp
      then have nn: "0 \<le> a" "0 \<le> b" by (simp_all add: in_grid_def)
      show "cellS (upd_score s F 0 j (j * gapScore self)) F a b
            = (if b = 0 then a * gapScore self
               else if a = 0 \<and> b < j + 1 then b * gapScore self else 0)"
        using old[OF ga] j by (auto simp: cellS_upd_score[OF wf g nn])
    qed
    then show "\<exists>s'. ?body j s = Some s' \<and> ?P (j + 1) s'" using run by blast
  qed
  then obtain f2 where f2: "for_loop (py_range 1 (nat n)) ?body f1 = Some f2" "?P (int (nat n)) f2"
    by blast
  have "Strict_edge self f2"
    unfolding Strict_edge_def using f2(2) n m by (auto simp: in_grid_def)
  then show ?thesis using f2 by blast
qed

lemma Strict_rec_frame:
  assumes se: "same_except f' f i j" and b: "before i' j' i j" and p: "1 \<le> i'" "1 \<le> j'"
  shows "Strict_rec self xs ys f' i' j' = Strict_rec self xs ys f i' j'"
proof -
  have c: "cellS f' F i' j' = cellS f F i' j'"
    "cellS f' F (i' - 1) (j' - 1) = cellS f F (i' - 1) (j' - 1)"
    "cellS f' F i' (j' - 1) = cellS f F i' (j' - 1)"
    "cellS f' F (i' - 1) j' = cellS f F (i' - 1) j'"
    using b p by (auto simp: before_def intro!: same_except_cells[OF se])
  show ?thesis by (simp add: Strict_rec_def c)
qed

lemma Strict_fill:
  "\<exists>f. Strict_computeAlignmentMatrix self xs ys = Some f \<and> wf_matrix f
       \<and> shape f = (int (length xs) + 1, int (length ys) + 1) \<and> Strict_edge self f
       \<and> (\<forall>i j. 1 \<le> i \<longrightarrow> i \<le> int (length xs) \<longrightarrow> 1 \<le> j \<longrightarrow> j \<le> int (length ys) \<longrightarrow>
            Strict_rec self xs ys f i j)"
proof -
  let ?m = "int (length xs) + 1" and ?n = "int (length ys) + 1"
  have m: "1 \<le> ?m" and n: "1 \<le> ?n" by simp_all
  have nm: "nat ?m = Suc (length xs)" "nat ?n = Suc (length ys)" by simp_all
  from Strict_col_phase[OF m n, of self] obtain f1 where
    f1: "for_loop (py_range 1 (nat ?m)) (\<lambda>i f. do {
            x \<leftarrow> getScore f F (i - 1) 0;
            setScore f F i 0 (x + gapScore self)
          }) (AlignmentMatrix_init (?m, ?n)) = Some f1"
      "wf_matrix f1" "shape f1 = (?m, ?n)"
      "\<forall>a b. in_grid f1 a b \<longrightarrow> cellS f1 F a b = (if b = 0 then a * gapScore self else 0)"
    by blast
  from Strict_row_phase[OF m n f1(2,3,4)] obtain f2 where
    f2: "for_loop (py_range 1 (nat ?n)) (\<lambda>j f. do {
            y \<leftarrow> getScore f F 0 (j - 1);
            setScore f F 0 j (y + gapScore self)
          }) f1 = Some f2"
      "wf_matrix f2" "shape f2 = (?m, ?n)" "Strict_edge self f2" by blast
  let ?cell = "\<lambda>i j f. do {
         p \<leftarrow> getScore f F (i - 1) (j - 1);
         a \<leftarrow> py_nth xs (i - 1);
         b \<leftarrow> py_nth ys (j - 1);
         let ab = p + call (scoring self) a b;
         y \<leftarrow> getScore f F i (j - 1);
         let ga = y + gapScore self;
         x \<leftarrow> getScore f F (i - 1) j;
         let gb = x + gapScore self;
         setScore f F i j (max3 ab ga gb)
       }"
  define W where "W f \<longleftrightarrow> wf_matrix f \<and> shape f = (?m, ?n) \<and> Strict_edge self f" for f
  have W2: "W f2" using f2 by (simp add: W_def)
  have "\<exists>f'. for_loop (py_range 1 (Suc (length xs)))
          (\<lambda>i f. for_loop (py_range 1 (Suc (length ys))) (\<lambda>j f. ?cell i j f) f) f2 = Some f'
        \<and> W f' \<and> (\<forall>i j. 1 \<le> i \<longrightarrow> i < int (Suc (length xs)) \<longrightarrow> 1 \<le> j \<longrightarrow> j < int (Suc (length ys)) \<longrightarrow>
              Strict_rec self xs ys f' i j)"
  proof (rule nested_loop_rule[where W = W and R = "\<lambda>i j f. Strict_rec self xs ys f i j", OF W2])
    show "1 \<le> Suc (length xs)" "1 \<le> Suc (length ys)" by simp_all
  next
    fix i j f
    assume ij: "1 \<le> i" "i < int (Suc (length xs))" "1 \<le> j" "j < int (Suc (length ys))"
      and Wf: "W f"
      and prev: "\<forall>i' j'. 1 \<le> i' \<longrightarrow> 1 \<le> j' \<longrightarrow> j' < int (Suc (length ys)) \<longrightarrow> before i' j' i j \<longrightarrow>
                  Strict_rec self xs ys f i' j'"
    have wf: "wf_matrix f" and shp: "shape f = (?m, ?n)" and ed: "Strict_edge self f"
      using Wf by (simp_all add: W_def)
    have g: "in_grid f i j" "in_grid f (i - 1) (j - 1)" "in_grid f i (j - 1)" "in_grid f (i - 1) j"
      using ij shp by (simp_all add: in_grid_def)
    have a: "py_nth xs (i - 1) = Some (xs ! nat (i - 1))" using ij by (intro py_nth_in_range) simp_all
    have b: "py_nth ys (j - 1) = Some (ys ! nat (j - 1))" using ij by (intro py_nth_in_range) simp_all
    let ?v = "max3 (cellS f F (i - 1) (j - 1) + call (scoring self) (xs ! nat (i - 1)) (ys ! nat (j - 1)))
            (cellS f F i (j - 1) + gapScore self)
            (cellS f F (i - 1) j + gapScore self)"
    let ?f' = "upd_score f F i j ?v"
    have run: "?cell i j f = Some ?f'"
      by (simp add: getScore_in_grid[OF wf g(2)] getScore_in_grid[OF wf g(3)]
          getScore_in_grid[OF wf g(4)] setScore_in_grid[OF wf g(1)] a b Let_def)
    have se: "same_except ?f' f i j"
      by (rule same_except_upd_score[OF wf g(1) same_except_refl[OF wf]])
    have wf': "wf_matrix ?f'" and shp': "shape ?f' = (?m, ?n)" using wf shp by simp_all
    have nn: "0 \<le> i" "0 \<le> j" "0 \<le> i - 1" "0 \<le> j - 1" using ij by simp_all
    have ed': "Strict_edge self ?f'"
      using ed ij unfolding Strict_edge_def shape_upd
      by (auto simp: cellS_upd_score[OF wf g(1)])
    have rec: "Strict_rec self xs ys ?f' i j"
      unfolding Strict_rec_def using nn
      by (simp add: cellS_upd_score[OF wf g(1)])
    have "W ?f'" using wf' shp' ed' by (simp add: W_def)
    moreover have "\<forall>i' j'. 1 \<le> i' \<longrightarrow> 1 \<le> j' \<longrightarrow> j' < int (Suc (length ys)) \<longrightarrow> before i' j' i j \<longrightarrow>
                  Strict_rec self xs ys ?f' i' j'"
      using prev Strict_rec_frame[OF se] by blast
    ultimately show "\<exists>f'. ?cell i j f = Some f' \<and> W f'
        \<and> Strict_rec self xs ys f' i j
        \<and> (\<forall>i' j'. 1 \<le> i' \<longrightarrow> 1 \<le> j' \<longrightarrow> j' < int (Suc (length ys)) \<longrightarrow> before i' j' i j \<longrightarrow>
                  Strict_rec self xs ys f' i' j')"
      using run rec by blast
  qed
  then obtain f' where f': "for_loop (py_range 1 (Suc (length xs)))
          (\<lambda>i f. for_loop (py_range 1 (Suc (length ys))) (\<lambda>j f. ?cell i j f) f) f2 = Some f'" "W f'"
      "\<forall>i j. 1 \<le> i \<longrightarrow> i < int (Suc (length xs)) \<longrightarrow> 1 \<le> j \<longrightarrow> j < int (Suc (length ys)) \<longrightarrow>
              Strict_rec self xs ys f' i j" by blast
  have "Strict_computeAlignmentMatrix self xs ys = Some f'"
    unfolding Strict_computeAlignmentMatrix_def using f1(1) f2(1) f'(1)
    by (simp add: Let_def nm)
  moreover have "\<forall>i j. 1 \<le> i \<longrightarrow> i \<le> int (length xs) \<longrightarrow> 1 \<le> j \<longrightarrow> j \<le> int (length ys) \<longrightarrow>
            Strict_rec self xs ys f' i j"
    using f'(3) by simp
  ultimately show ?thesis using f'(2) unfolding W_def by blast
qed

section \<open>Linear-gap global backtrace: an invariant of the descent\<close>

text \<open>
  A property \<open>P\<close> of the position and the accumulator that is kept by the three moves
  gives a property \<open>G\<close> of every appended alignment, once \<open>P\<close> at the origin gives \<open>G\<close>
  of the reversed accumulator.
\<close>

lemma bind_SomeE:
  assumes "(m \<bind> k) = Some y"
  obtains x where "m = Some x" "k x = Some y"
  using assms by (cases m) auto

lemma pop_block:
  assumes rec: "\<And>st. R = Some st \<Longrightarrow> extends (\<lambda>_. G) als1 (push al x y sc) st"
    and run: "(R \<bind> (\<lambda>(alignments, alignment). pop alignment \<bind>
                 (\<lambda>(e, alignment). Some (K alignments alignment)))) = Some z"
  shows "\<exists>als'. z = K als' al \<and> extends (\<lambda>_. G) als1 al (als', al)"
proof -
  from run obtain als3 al3 where r: "R = Some (als3, al3)"
    and p: "(pop al3 \<bind> (\<lambda>(e, alignment). Some (K als3 alignment))) = Some z"
    by (auto simp: bind_eq_Some_conv)
  from rec[OF r] have al3: "al3 = push al x y sc"
    and new: "\<exists>new. als3 = als1 @ new \<and> (\<forall>r \<in> set new. G r)"
    by (simp_all add: extends_def)
  from p al3 have z: "z = K als3 al" by (simp add: pop_push)
  show ?thesis using new z by (auto simp: extends_def)
qed

lemma Strict_backtraceFrom_inv:
  fixes P :: "int \<Rightarrow> int \<Rightarrow> SequenceAlignment \<Rightarrow> bool"
  assumes base: "\<And>al. P 0 0 al \<Longrightarrow> G (reversed al)"
    and m1: "\<And>i j al a s. P i j al \<Longrightarrow> i \<noteq> 0 \<Longrightarrow> py_nth xs (i - 1) = Some a \<Longrightarrow>
               P (i - 1) j (push al a (gap al) s)"
    and m2: "\<And>i j al b s. P i j al \<Longrightarrow> j \<noteq> 0 \<Longrightarrow> py_nth ys (j - 1) = Some b \<Longrightarrow>
               P i (j - 1) (push al (gap al) b s)"
    and m3: "\<And>i j al a b s. P i j al \<Longrightarrow> i \<noteq> 0 \<Longrightarrow> j \<noteq> 0 \<Longrightarrow> py_nth xs (i - 1) = Some a \<Longrightarrow>
               py_nth ys (j - 1) = Some b \<Longrightarrow> P (i - 1) (j - 1) (push al a b s)"
  shows "Strict_backtraceFrom self xs ys f i j als al = Some st \<Longrightarrow> P i j al \<Longrightarrow>
         extends (\<lambda>_. G) als al st"
proof (induction "cell_measure f i j" arbitrary: i j als al st rule: less_induct)
  case less
  note IH = less.hyps and P = less.prems(2)
  note run = less.prems(1)[unfolded Strict_backtraceFrom.simps[of self xs ys f i j als al] Let_def]
  show ?case
  proof (cases "i = 0 \<and> j = 0")
    case True
    then have "st = (als @ [reversed al], al)" using run by simp
    moreover have "G (reversed al)" using base P True by simp
    ultimately show ?thesis by (simp add: extends_def)
  next
    case nz: False
    let ?B1 = "\<lambda>c. (if i \<noteq> 0 then do {
             x \<leftarrow> getScore f F (i - 1) j;
             a \<leftarrow> py_nth xs (i - 1);
             if c = x + gapScore self then do {
               (alignments, alignment) \<leftarrow>
                 Strict_backtraceFrom self xs ys f (i - 1) j als (push al a (gap al) (c - x));
               (e, alignment) \<leftarrow> pop alignment;
               Some (True, Some a, alignments, alignment)
             } else Some (False, Some a, als, al)
           } else Some (False, None, als, al))"
    let ?B2 = "\<lambda>c alignments alignment. (if j \<noteq> 0 then do {
               y \<leftarrow> getScore f F i (j - 1);
               b \<leftarrow> py_nth ys (j - 1);
               if c = y + gapScore self then do {
                 (alignments, alignment) \<leftarrow>
                   Strict_backtraceFrom self xs ys f i (j - 1) alignments
                     (push alignment (gap alignment) b (c - y));
                 (e, alignment) \<leftarrow> pop alignment;
                 Some (Some b, alignments, alignment)
               } else Some (Some b, alignments, alignment)
             } else Some (None, alignments, alignment))"
    let ?B3 = "\<lambda>c a b alignments alignment. (if i \<noteq> 0 \<and> j \<noteq> 0 then do {
            p \<leftarrow> getScore f F (i - 1) (j - 1);
            a \<leftarrow> a;
            b \<leftarrow> b;
            if c = p + call (scoring self) a b then do {
              (alignments, alignment) \<leftarrow>
                Strict_backtraceFrom self xs ys f (i - 1) (j - 1)
                  alignments (push alignment a b (c - p));
              (e, alignment) \<leftarrow> pop alignment;
              Some (alignments, alignment)
            } else Some (alignments, alignment)
          } else Some (alignments, alignment))"
    let ?K2 = "\<lambda>c a. (\<lambda>(b, alignments, alignment). ?B3 c a b alignments alignment)"
    let ?K1 = "\<lambda>c. (\<lambda>(returned, a, alignments, alignment).
                 if returned then Some (alignments, alignment)
                 else ?B2 c alignments alignment \<bind> ?K2 c a)"
    have b: "(getScore f F i j \<bind> (\<lambda>c. ?B1 c \<bind> ?K1 c)) = Some st"
      using run nz by (simp add: Let_def)
    from b obtain c where c: "getScore f F i j = Some c" and b1: "(?B1 c \<bind> ?K1 c) = Some st"
      by (rule bind_SomeE)
    from b1 obtain r1 where r1: "?B1 c = Some r1" and k1: "?K1 c r1 = Some st"
      by (rule bind_SomeE)
    obtain ret ao als1 al1 where r1eq: "r1 = (ret, ao, als1, al1)" by (cases r1)
    have claim1: "al1 = al \<and> extends (\<lambda>_. G) als al (als1, al)
                  \<and> (i \<noteq> 0 \<longrightarrow> (\<exists>a. ao = Some a \<and> py_nth xs (i - 1) = Some a))"
    proof (cases "i = 0")
      case True
      then show ?thesis using r1 r1eq by (simp add: extends_refl)
    next
      case False
      from r1 False obtain x where x: "getScore f F (i - 1) j = Some x"
        and r1a: "(py_nth xs (i - 1) \<bind> (\<lambda>a.
             if c = x + gapScore self then do {
               (alignments, alignment) \<leftarrow>
                 Strict_backtraceFrom self xs ys f (i - 1) j als (push al a (gap al) (c - x));
               (e, alignment) \<leftarrow> pop alignment;
               Some (True, Some a, alignments, alignment)
             } else Some (False, Some a, als, al))) = Some r1"
        by (auto elim: bind_SomeE)
      from r1a obtain a where a: "py_nth xs (i - 1) = Some a"
        and r1b: "(if c = x + gapScore self then do {
               (alignments, alignment) \<leftarrow>
                 Strict_backtraceFrom self xs ys f (i - 1) j als (push al a (gap al) (c - x));
               (e, alignment) \<leftarrow> pop alignment;
               Some (True, Some a, alignments, alignment)
             } else Some (False, Some a, als, al)) = Some r1"
        by (rule bind_SomeE)
      show ?thesis
      proof (cases "c = x + gapScore self")
        case True
        have "\<exists>als'. r1 = (True, Some a, als', al) \<and> extends (\<lambda>_. G) als al (als', al)"
        proof (rule pop_block[where K = "\<lambda>alignments alignment. (True, Some a, alignments, alignment)"
              and x = a and y = "gap al" and sc = "c - x"])
          fix st' assume "Strict_backtraceFrom self xs ys f (i - 1) j als (push al a (gap al) (c - x)) = Some st'"
          then show "extends (\<lambda>_. G) als (push al a (gap al) (c - x)) st'"
            by (rule IH[OF cell_measure_less[OF x] _ m1[OF P False a], rotated -1]) simp_all
        next
          show "(Strict_backtraceFrom self xs ys f (i - 1) j als (push al a (gap al) (c - x))
                 \<bind> (\<lambda>(alignments, alignment). pop alignment \<bind>
                     (\<lambda>(e, alignment). Some (True, Some a, alignments, alignment)))) = Some r1"
            using r1b True by simp
        qed
        then show ?thesis using r1eq a by auto
      next
        case nm: False
        then have "r1 = (False, Some a, als, al)" using r1b by simp
        then show ?thesis using r1eq a(1) by (simp add: extends_refl)
      qed
    qed
    then have al1: "al1 = al" and e1: "extends (\<lambda>_. G) als al (als1, al)"
      and ao: "i \<noteq> 0 \<Longrightarrow> \<exists>a. ao = Some a \<and> py_nth xs (i - 1) = Some a" by simp_all
    show ?thesis
    proof (cases ret)
      case True
      then have "st = (als1, al)" using k1 r1eq al1 by simp
      then show ?thesis using e1 by simp
    next
      case nret: False
      have b2: "(?B2 c als1 al \<bind> ?K2 c ao) = Some st"
        using k1 r1eq al1 nret by simp
      from b2 obtain r2 where r2: "?B2 c als1 al = Some r2" and k2: "?K2 c ao r2 = Some st"
        by (rule bind_SomeE)
      obtain bo als2 al2 where r2eq: "r2 = (bo, als2, al2)" by (cases r2)
      have claim2: "al2 = al \<and> extends (\<lambda>_. G) als1 al (als2, al)
                  \<and> (j \<noteq> 0 \<longrightarrow> (\<exists>b. bo = Some b \<and> py_nth ys (j - 1) = Some b))"
      proof (cases "j = 0")
        case True
        then show ?thesis using r2 r2eq by (simp add: extends_refl)
      next
        case False
        from r2 False obtain y where y: "getScore f F i (j - 1) = Some y"
          and r2a: "(py_nth ys (j - 1) \<bind> (\<lambda>b.
               if c = y + gapScore self then do {
                 (alignments, alignment) \<leftarrow>
                   Strict_backtraceFrom self xs ys f i (j - 1) als1 (push al (gap al) b (c - y));
                 (e, alignment) \<leftarrow> pop alignment;
                 Some (Some b, alignments, alignment)
               } else Some (Some b, als1, al))) = Some r2"
          by (auto elim: bind_SomeE)
        from r2a obtain b where b: "py_nth ys (j - 1) = Some b"
          and r2b: "(if c = y + gapScore self then do {
                 (alignments, alignment) \<leftarrow>
                   Strict_backtraceFrom self xs ys f i (j - 1) als1 (push al (gap al) b (c - y));
                 (e, alignment) \<leftarrow> pop alignment;
                 Some (Some b, alignments, alignment)
               } else Some (Some b, als1, al)) = Some r2"
          by (rule bind_SomeE)
        show ?thesis
        proof (cases "c = y + gapScore self")
          case True
          have "\<exists>als'. r2 = (Some b, als', al) \<and> extends (\<lambda>_. G) als1 al (als', al)"
          proof (rule pop_block[where K = "\<lambda>alignments alignment. (Some b, alignments, alignment)"
                and x = "gap al" and y = b and sc = "c - y"])
            fix st' assume "Strict_backtraceFrom self xs ys f i (j - 1) als1 (push al (gap al) b (c - y)) = Some st'"
            then show "extends (\<lambda>_. G) als1 (push al (gap al) b (c - y)) st'"
              by (rule IH[OF cell_measure_less[OF y] _ m2[OF P False b], rotated -1]) simp_all
          next
            show "(Strict_backtraceFrom self xs ys f i (j - 1) als1 (push al (gap al) b (c - y))
                   \<bind> (\<lambda>(alignments, alignment). pop alignment \<bind>
                       (\<lambda>(e, alignment). Some (Some b, alignments, alignment)))) = Some r2"
              using r2b True by simp
          qed
          then show ?thesis using r2eq b by auto
        next
          case nm: False
          then have "r2 = (Some b, als1, al)" using r2b by simp
          then show ?thesis using r2eq b(1) by (simp add: extends_refl)
        qed
      qed
      then have al2: "al2 = al" and e2: "extends (\<lambda>_. G) als1 al (als2, al)"
        and bo: "j \<noteq> 0 \<Longrightarrow> \<exists>b. bo = Some b \<and> py_nth ys (j - 1) = Some b" by simp_all
      have b3: "?B3 c ao bo als2 al = Some st" using k2 r2eq al2 by simp
      have e3: "extends (\<lambda>_. G) als2 al st"
      proof (cases "i \<noteq> 0 \<and> j \<noteq> 0")
        case False
        then show ?thesis using b3 by (auto simp: extends_refl)
      next
        case True
        then obtain a b' where a: "ao = Some a" "py_nth xs (i - 1) = Some a"
          and b': "bo = Some b'" "py_nth ys (j - 1) = Some b'" using ao bo by blast
        from b3 True a(1) b'(1) obtain p where p: "getScore f F (i - 1) (j - 1) = Some p"
          and r3: "(if c = p + call (scoring self) a b' then do {
              (alignments, alignment) \<leftarrow>
                Strict_backtraceFrom self xs ys f (i - 1) (j - 1) als2 (push al a b' (c - p));
              (e, alignment) \<leftarrow> pop alignment;
              Some (alignments, alignment)
            } else Some (als2, al)) = Some st"
          by (auto elim: bind_SomeE)
        show ?thesis
        proof (cases "c = p + call (scoring self) a b'")
          case m: True
          have "\<exists>als'. st = (als', al) \<and> extends (\<lambda>_. G) als2 al (als', al)"
          proof (rule pop_block[where K = "\<lambda>alignments alignment. (alignments, alignment)"
                and x = a and y = b' and sc = "c - p"])
            fix st' assume "Strict_backtraceFrom self xs ys f (i - 1) (j - 1) als2 (push al a b' (c - p)) = Some st'"
            then show "extends (\<lambda>_. G) als2 (push al a b' (c - p)) st'"
              using True by (intro IH[OF cell_measure_less[OF p] _ m3[OF P _ _ a(2) b'(2)]]) simp_all
          next
            show "(Strict_backtraceFrom self xs ys f (i - 1) (j - 1) als2 (push al a b' (c - p))
                   \<bind> (\<lambda>(alignments, alignment). pop alignment \<bind>
                       (\<lambda>(e, alignment). Some (alignments, alignment)))) = Some st"
              using r3 m by simp
          qed
          then show ?thesis by auto
        next
          case False
          then show ?thesis using r3 by (auto simp: extends_refl)
        qed
      qed
      show ?thesis using e1 e2 e3 extends_trans by (metis prod.collapse extends_def)
    qed
  qed
qed

section \<open>Linear-gap global backtrace: the order of the moves\<close>

text \<open>
  On the filled matrix every cell other than the origin is reproduced by one of the
  three moves, so the descent does not raise and appends an alignment.
\<close>

lemma Strict_backtraceFrom_frame:
  assumes "Strict_backtraceFrom self xs ys f i j als al = Some st"
  shows "\<exists>new. st = (als @ new, al)"
proof -
  have "extends (\<lambda>_ _. True) als al st"
    by (rule Strict_backtraceFrom_inv[where P = "\<lambda>_ _ _. True" and G = "\<lambda>_. True", OF _ _ _ _ assms])
       simp_all
  then show ?thesis by (cases st) (auto simp: extends_def)
qed

lemma Strict_backtraceFrom_total:
  assumes wf: "wf_matrix f" and shp: "shape f = (int (length xs) + 1, int (length ys) + 1)"
    and ed: "Strict_edge self f"
    and rec: "\<forall>i j. 1 \<le> i \<longrightarrow> i \<le> int (length xs) \<longrightarrow> 1 \<le> j \<longrightarrow> j \<le> int (length ys) \<longrightarrow>
            Strict_rec self xs ys f i j"
  shows "0 \<le> i \<Longrightarrow> i \<le> int (length xs) \<Longrightarrow> 0 \<le> j \<Longrightarrow> j \<le> int (length ys) \<Longrightarrow>
         \<exists>new. new \<noteq> [] \<and> Strict_backtraceFrom self xs ys f i j als al = Some (als @ new, al)"
proof (induction "nat (i + j)" arbitrary: i j als al rule: less_induct)
  case less
  note IH = less.hyps and b = less.prems
  let ?g = "gapScore self"
  have gs: "getScore f F i' j' = Some (cellS f F i' j')"
    if "0 \<le> i'" "i' \<le> int (length xs)" "0 \<le> j'" "j' \<le> int (length ys)" for i' j'
    using that shp by (intro getScore_in_grid[OF wf]) (simp add: in_grid_def)
  show ?case
  proof (cases "i = 0 \<and> j = 0")
    case True
    then have "Strict_backtraceFrom self xs ys f i j als al = Some (als @ [reversed al], al)"
      by (simp add: Strict_backtraceFrom.simps[of self xs ys f 0 0 als al])
    then show ?thesis by blast
  next
    case nz: False
    let ?c = "cellS f F i j"
    have gc: "getScore f F i j = Some ?c" using b by (intro gs)
    let ?x = "cellS f F (i - 1) j" and ?y = "cellS f F i (j - 1)" and ?p = "cellS f F (i - 1) (j - 1)"
    let ?a = "xs ! nat (i - 1)" and ?b = "ys ! nat (j - 1)"
    have gx: "getScore f F (i - 1) j = Some ?x" if "i \<noteq> 0" using b that by (intro gs) simp_all
    have gy: "getScore f F i (j - 1) = Some ?y" if "j \<noteq> 0" using b that by (intro gs) simp_all
    have gp: "getScore f F (i - 1) (j - 1) = Some ?p" if "i \<noteq> 0" "j \<noteq> 0"
      using b that by (intro gs) simp_all
    have pa: "py_nth xs (i - 1) = Some ?a" if "i \<noteq> 0" using b that by (intro py_nth_in_range) simp_all
    have pb: "py_nth ys (j - 1) = Some ?b" if "j \<noteq> 0" using b that by (intro py_nth_in_range) simp_all
    have some_move: "(i \<noteq> 0 \<and> ?c = ?x + ?g) \<or> (j \<noteq> 0 \<and> ?c = ?y + ?g)
        \<or> (i \<noteq> 0 \<and> j \<noteq> 0 \<and> ?c = ?p + call (scoring self) ?a ?b)"
    proof (cases "i = 0")
      case True
      then have j: "1 \<le> j" using nz b by simp
      have "cellS f F 0 j = j * ?g" "cellS f F 0 (j - 1) = (j - 1) * ?g"
        using ed b j shp unfolding Strict_edge_def by simp_all
      then have "?c = ?y + ?g" using True by (simp add: algebra_simps)
      then show ?thesis using j by simp
    next
      case i0: False
      then have i: "1 \<le> i" using b by simp
      show ?thesis
      proof (cases "j = 0")
        case True
        have "cellS f F i 0 = i * ?g" "cellS f F (i - 1) 0 = (i - 1) * ?g"
          using ed b i shp unfolding Strict_edge_def by simp_all
        then have "?c = ?x + ?g" using True by (simp add: algebra_simps)
        then show ?thesis using i0 by simp
      next
        case j0: False
        then have j: "1 \<le> j" using b by simp
        have "Strict_rec self xs ys f i j" using rec i j b by simp
        then show ?thesis using i0 j0 unfolding Strict_rec_def max3_def by (auto simp: max_def split: if_splits)
      qed
    qed
    show ?thesis
    proof (cases "i \<noteq> 0 \<and> ?c = ?x + ?g")
      case A: True
      have "nat (i - 1 + j) < nat (i + j)" using A b by simp
      from IH[OF this, of als "push al ?a (gap al) (?c - ?x)"] b A
      obtain n1 where n1: "n1 \<noteq> []"
        "Strict_backtraceFrom self xs ys f (i - 1) j als (push al ?a (gap al) (?c - ?x))
           = Some (als @ n1, push al ?a (gap al) (?c - ?x))" by auto
      have "Strict_backtraceFrom self xs ys f i j als al = Some (als @ n1, al)"
        using A nz n1(2)
        by (simp add: Strict_backtraceFrom.simps[of self xs ys f i j als al] gc gx pa
            pop_push Let_def)
      then show ?thesis using n1(1) by blast
    next
      case nA: False
      define r1 where "r1 = (if i \<noteq> 0 then Some ?a else None)"
      show ?thesis
      proof (cases "j \<noteq> 0 \<and> ?c = ?y + ?g")
        case B: True
        have "nat (i + (j - 1)) < nat (i + j)" using B b by simp
        from IH[OF this, of als "push al (gap al) ?b (?c - ?y)"] b B
        obtain n2 where n2: "n2 \<noteq> []"
          "Strict_backtraceFrom self xs ys f i (j - 1) als (push al (gap al) ?b (?c - ?y))
             = Some (als @ n2, push al (gap al) ?b (?c - ?y))" by auto
        show ?thesis
        proof (cases "i \<noteq> 0 \<and> ?c = ?p + call (scoring self) ?a ?b")
          case D: True
          have "nat (i - 1 + (j - 1)) < nat (i + j)" using B D b by simp
          from IH[OF this, of "als @ n2" "push al ?a ?b (?c - ?p)"] b B D
          obtain n3 where n3: "n3 \<noteq> []"
            "Strict_backtraceFrom self xs ys f (i - 1) (j - 1) (als @ n2) (push al ?a ?b (?c - ?p))
               = Some ((als @ n2) @ n3, push al ?a ?b (?c - ?p))" by auto
          have "Strict_backtraceFrom self xs ys f i j als al = Some (als @ (n2 @ n3), al)"
            using nA B D nz n2(2) n3(2)
            by (simp add: Strict_backtraceFrom.simps[of self xs ys f i j als al] gc gx gy gp pa pb
                pop_push Let_def)
          then show ?thesis using n2(1) by blast
        next
          case nD: False
          have "Strict_backtraceFrom self xs ys f i j als al = Some (als @ n2, al)"
          proof (cases "i = 0")
            case True
            have "Strict_backtraceFrom self xs ys f 0 j als al = Some (als @ n2, al)"
              using B nz gc gy pb n2(2) unfolding True
              by (simp add: Strict_backtraceFrom.simps[of self xs ys f 0 j als al] pop_push Let_def)
            then show ?thesis using True by simp
          next
            case False
            then show ?thesis using nA B nD nz n2(2)
              by (simp add: Strict_backtraceFrom.simps[of self xs ys f i j als al] gc gx gy gp pa pb
                pop_push Let_def)
          qed
          then show ?thesis using n2(1) by blast
        qed
      next
        case nB: False
        from some_move nA nB have D: "i \<noteq> 0" "j \<noteq> 0" "?c = ?p + call (scoring self) ?a ?b"
          by auto
        have "nat (i - 1 + (j - 1)) < nat (i + j)" using D b by simp
        from IH[OF this, of als "push al ?a ?b (?c - ?p)"] b D
        obtain n3 where n3: "n3 \<noteq> []"
          "Strict_backtraceFrom self xs ys f (i - 1) (j - 1) als (push al ?a ?b (?c - ?p))
             = Some (als @ n3, push al ?a ?b (?c - ?p))" by auto
        have "Strict_backtraceFrom self xs ys f i j als al = Some (als @ n3, al)"
          using nA nB D n3(2)
          by (simp add: Strict_backtraceFrom.simps[of self xs ys f i j als al] gc gx gy gp pa pb
              pop_push Let_def)
        then show ?thesis using n3(1) by blast
      qed
    qed
  qed
qed

lemma Strict_first_move:
  assumes i: "i \<noteq> 0" and gc: "getScore f F i j = Some c" and gx: "getScore f F (i - 1) j = Some x"
    and pa: "py_nth xs (i - 1) = Some a" and m: "c = x + gapScore self"
  shows "Strict_backtraceFrom self xs ys f i j als al =
         map_option (\<lambda>st. (fst st, al))
           (Strict_backtraceFrom self xs ys f (i - 1) j als (push al a (gap al) (c - x)))"
proof (cases "Strict_backtraceFrom self xs ys f (i - 1) j als (push al a (gap al) (c - x))")
  case None
  then show ?thesis using i m
    by (simp add: Strict_backtraceFrom.simps[of self xs ys f i j als al] gc gx pa Let_def)
next
  case (Some st)
  from Strict_backtraceFrom_frame[OF Some] obtain new where
    st: "st = (als @ new, push al a (gap al) (c - x))" by blast
  show ?thesis using i m Some[unfolded st]
    by (simp add: Strict_backtraceFrom.simps[of self xs ys f i j als al] gc gx pa Let_def pop_push)
qed

lemma Strict_later_moves:
  assumes i: "i \<noteq> 0" and j: "j \<noteq> 0" and gc: "getScore f F i j = Some c"
    and gx: "getScore f F (i - 1) j = Some x" and gy: "getScore f F i (j - 1) = Some y"
    and gp: "getScore f F (i - 1) (j - 1) = Some p"
    and pa: "py_nth xs (i - 1) = Some a" and pb: "py_nth ys (j - 1) = Some b"
    and n1: "c \<noteq> x + gapScore self" and m2: "c = y + gapScore self"
    and m3: "c = p + call (scoring self) a b"
  shows "Strict_backtraceFrom self xs ys f i j als al =
         Strict_backtraceFrom self xs ys f i (j - 1) als (push al (gap al) b (c - y)) \<bind>
           (\<lambda>st1. Strict_backtraceFrom self xs ys f (i - 1) (j - 1) (fst st1) (push al a b (c - p)) \<bind>
              (\<lambda>st2. Some (fst st2, al)))"
proof (cases "Strict_backtraceFrom self xs ys f i (j - 1) als (push al (gap al) b (c - y))")
  case None
  then show ?thesis using i j n1 m2
    by (simp add: Strict_backtraceFrom.simps[of self xs ys f i j als al] gc gx gy pa pb Let_def)
next
  case (Some st1)
  from Strict_backtraceFrom_frame[OF Some] obtain new1 where
    st1: "st1 = (als @ new1, push al (gap al) b (c - y))" by blast
  show ?thesis
  proof (cases "Strict_backtraceFrom self xs ys f (i - 1) (j - 1) (als @ new1) (push al a b (c - p))")
    case None
    then show ?thesis using i j n1 m2 m3 Some[unfolded st1] st1
      by (simp add: Strict_backtraceFrom.simps[of self xs ys f i j als al] gc gx gy gp pa pb
          Let_def pop_push)
  next
    case (Some st2)
    from Strict_backtraceFrom_frame[OF Some] obtain new2 where
      st2: "st2 = ((als @ new1) @ new2, push al a b (c - p))" by blast
    show ?thesis using i j n1 m2 m3 \<open>Strict_backtraceFrom self xs ys f i (j - 1) als
          (push al (gap al) b (c - y)) = Some st1\<close>[unfolded st1] st1 Some[unfolded st2]
      by (simp add: Strict_backtraceFrom.simps[of self xs ys f i j als al] gc gx gy gp pa pb
          Let_def pop_push)
  qed
qed

lemma Strict_backtrace_nonempty:
  assumes wf: "wf_matrix f" and shp: "shape f = (int (length xs) + 1, int (length ys) + 1)"
    and ed: "Strict_edge self f"
    and rec: "\<forall>i j. 1 \<le> i \<longrightarrow> i \<le> int (length xs) \<longrightarrow> 1 \<le> j \<longrightarrow> j \<le> int (length ys) \<longrightarrow>
            Strict_rec self xs ys f i j"
  shows "\<exists>als. Strict_backtrace self xs ys f = Some als \<and> als \<noteq> []"
proof -
  from Strict_backtraceFrom_total[OF wf shp ed rec, of "int (length xs)" "int (length ys)" "[]"
      "emptyAlignment xs ys"]
  obtain new where "new \<noteq> []"
    "Strict_backtraceFrom self xs ys f (int (length xs)) (int (length ys)) [] (emptyAlignment xs ys)
       = Some (new, emptyAlignment xs ys)" by auto
  then show ?thesis by (simp add: Strict_backtrace_def shp)
qed






end
